theory Spec2Isabelle
  imports Main
begin

section \<open>Values of the host language\<close>

text \<open>
  The component is a TypeScript class running on a JavaScript heap. Objects are reached
  through references; a reference is an address into a store, and two references are the
  same object exactly when the addresses are equal. A \<open>File\<close> is opaque: only its identity
  is used by the component.
\<close>

type_synonym ref = nat

datatype File = FileRef nat

datatype error = TypeError

text \<open>The outcome of running a method: it returns a value or throws.\<close>

datatype 'a completion = Normal 'a | Throw error

text \<open>
  Values that a template binding can hand to the \<open>required\<close> and \<open>disabled\<close> inputs.
  Numbers are restricted to the integers (enough for \<open>0\<close> and \<open>1\<close>).
\<close>

datatype js_value = JUndefined | JNull | JBool bool | JNum int | JStr string

text \<open>JavaScript's \<open>ToBoolean\<close>: which values are truthy.\<close>

fun truthy :: "js_value \<Rightarrow> bool" where
  "truthy JUndefined = False"
| "truthy JNull = False"
| "truthy (JBool b) = b"
| "truthy (JNum n) = (n \<noteq> 0)"
| "truthy (JStr s) = (s \<noteq> [])"

subsection \<open>Decimal numerals\<close>

definition digit_char :: "nat \<Rightarrow> char" where
  "digit_char d = ''0123456789'' ! d"

fun string_of_nat :: "nat \<Rightarrow> string" where
  "string_of_nat n =
     (if n < 10 then [digit_char n]
      else string_of_nat (n div 10) @ [digit_char (n mod 10)])"

declare string_of_nat.simps [simp del]

definition string_of_int :: "int \<Rightarrow> string" where
  "string_of_int i =
     (if i < 0 then CHR ''-'' # string_of_nat (nat (- i)) else string_of_nat (nat i))"

definition is_digit :: "char \<Rightarrow> bool" where
  "is_digit c = (c \<in> set ''0123456789'')"

text \<open>The value of a decimal digit: its distance from the character \<open>0\<close>.\<close>

definition digit_val :: "char \<Rightarrow> nat" where
  "digit_val c = of_char c - of_char CHR ''0''"

definition nat_of_digits :: "string \<Rightarrow> nat" where
  "nat_of_digits ds = foldl (\<lambda>a c. 10 * a + digit_val c) 0 ds"

subsection \<open>String conversion and \<open>parseInt\<close>\<close>

text \<open>
  \<open>to_string\<close> is the conversion a template literal \<open>`${value}`\<close> applies.
\<close>

fun to_string :: "js_value \<Rightarrow> string" where
  "to_string JUndefined = ''undefined''"
| "to_string JNull = ''null''"
| "to_string (JBool b) = (if b then ''true'' else ''false'')"
| "to_string (JNum n) = string_of_int n"
| "to_string (JStr s) = s"

text \<open>
  A key is a string of code units below 256, one \<open>char\<close> each. White space that
  \<open>parseInt\<close> skips, among these: TAB, LF, VT, FF, CR, the space and the no-break space
  U+00A0. The other white space of JavaScript (U+1680, U+2000 to U+200A, U+2028, U+2029,
  U+202F, U+205F, U+3000, U+FEFF) lies beyond the code units a key can hold here.
\<close>

definition is_ws :: "char \<Rightarrow> bool" where
  "is_ws c =
     (c \<in> set [CHR 0x09, CHR 0x0A, CHR 0x0B, CHR 0x0C, CHR 0x0D, CHR 0x20, CHR 0xA0])"

text \<open>
  \<open>parseInt(key, 10)\<close>: skip leading white space, read one optional sign, then the longest
  run of decimal digits; with no digit the result is \<open>NaN\<close>, here \<open>None\<close>. Whatever
  follows the digits is ignored. The value is the exact integer (JavaScript rounds a long
  numeral to a double, which never turns it into \<open>NaN\<close>).
\<close>

definition parseInt :: "string \<Rightarrow> int option" where
  "parseInt s =
     (let t = dropWhile is_ws s;
          neg = (t \<noteq> [] \<and> hd t = CHR ''-'');
          u = (if t \<noteq> [] \<and> (hd t = CHR ''+'' \<or> hd t = CHR ''-'') then tl t else t);
          z = takeWhile is_digit u
      in if z = [] then None
         else Some (if neg then - int (nat_of_digits z) else int (nat_of_digits z)))"

definition isNaN :: "int option \<Rightarrow> bool" where
  "isNaN v = (v = None)"

subsection \<open>\<open>coerceBooleanProperty\<close>\<close>

text \<open>
  The component imports \<open>coerceBooleanProperty\<close> from the CDK's coercion package, whose
  body is \<open>value != null && `${value}` !== 'false'\<close>. The loose comparison \<open>!= null\<close>
  rejects both \<open>null\<close> and \<open>undefined\<close>.
\<close>

definition coerceBooleanProperty :: "js_value \<Rightarrow> bool" where
  "coerceBooleanProperty v = (v \<noteq> JNull \<and> v \<noteq> JUndefined \<and> to_string v \<noteq> ''false'')"

subsection \<open>\<open>Set<File>\<close>\<close>

text \<open>
  A JavaScript \<open>Set\<close> keeps its members in insertion order and compares objects by
  reference. Its contents are a list; \<open>add\<close> appends a value that is not yet a member and
  does nothing otherwise, \<open>delete\<close> drops the value, \<open>size\<close> counts the members.
\<close>

definition Set_add :: "File \<Rightarrow> File list \<Rightarrow> File list" where
  "Set_add f xs = (if f \<in> set xs then xs else xs @ [f])"

definition Set_delete :: "File \<Rightarrow> File list \<Rightarrow> File list" where
  "Set_delete f xs = removeAll f xs"

definition Set_size :: "File list \<Rightarrow> nat" where
  "Set_size xs = length xs"

subsection \<open>\<open>Subject<void>\<close>\<close>

text \<open>
  The part of an RxJS \<open>Subject\<close> that the component uses: \<open>next()\<close> hands one notification
  to the observers unless the subject has been stopped, \<open>complete()\<close> stops it.
  \<open>delivered\<close> counts the notifications handed out so far.
\<close>

record subject =
  isStopped :: bool
  delivered :: nat

definition Subject_new :: subject where
  "Subject_new = \<lparr>isStopped = False, delivered = 0\<rparr>"

definition Subject_next :: "subject \<Rightarrow> subject" where
  "Subject_next s = (if isStopped s then s else s\<lparr>delivered := delivered s + 1\<rparr>)"

definition Subject_complete :: "subject \<Rightarrow> subject" where
  "Subject_complete s = s\<lparr>isStopped := True\<rparr>"

section \<open>The component's state\<close>

text \<open>
  Modelled from the spec: the class \<open>MyFileListInput\<close> (imported from
  \<open>./my-file-list.input\<close>) is not among the sources. The spec describes it as a thin
  carrier object exposing the current Selection; the component builds one with
  \<open>new MyFileListInput(this.files)\<close> and reads its \<open>files\<close> field, so a wrapper is an
  object with the single field \<open>files\<close>, holding the reference it was built with.
\<close>

datatype MyFileListInput = MyFileListInput (w_files: ref)

text \<open>The origin the focus monitor reports; \<open>null\<close> (here \<open>None\<close>) means the focus is gone.\<close>

datatype FocusOrigin = Touch | Mouse | Keyboard | Program

text \<open>
  The hidden native input: \<open>el_files\<close> is its \<open>files\<close> collection, each enumerable key
  with the value stored under it, in the order \<open>for ... in\<close> visits them and typed as the
  source declares it (\<open>{ [key: string]: File }\<close>); \<open>clicks\<close> counts the calls of
  \<open>click()\<close>. The component reaches it through the \<open>@ViewChild\<close> field
  \<open>fileInputElement\<close>, which has no initialiser: it is \<open>undefined\<close> (\<open>None\<close>) after the
  constructor, until the framework attaches the view.
\<close>

record input_element =
  el_files :: "(string \<times> File) list"
  clicks :: nat

text \<open>
  What lives outside the component instance: the store of \<open>Set<File>\<close> objects and the
  store of wrapper objects (an address is an index, allocation appends), the static
  counter \<open>nextId\<close>, the focus monitor (the elements it watches and the calls of
  \<open>stopMonitoring\<close> it has received), the \<open>valueAccessor\<close> field of each \<open>NgControl\<close>
  (the id of the component stored there), and the calls made to change callbacks: which
  callback was called, and with which \<open>Set\<close>. A callback is known by a number; the
  callbacks the forms framework registers record their call, return normally and do not
  call back into the component.
\<close>

record heap =
  sets :: "File list list"
  wrappers :: "MyFileListInput list"
  nextId :: nat
  monitored :: "ref list"
  stopMonitoring_calls :: "ref list"
  valueAccessor :: "ref \<rightharpoonup> string"
  onChange_calls :: "(nat \<times> ref) list"

text \<open>
  The fields of one instance. \<open>onChange'\<close> is \<open>_onChange\<close>, declared without an
  initialiser and therefore \<open>undefined\<close> (\<open>None\<close>) until \<open>registerOnChange\<close> stores a
  callback; \<open>id'\<close>, \<open>disabled'\<close> and \<open>required'\<close> are \<open>id\<close>, \<open>_disabled\<close> and
  \<open>_required\<close>. The fields \<open>autofilled\<close> and \<open>placeholder\<close> are declared and never
  assigned or read.
\<close>

record component =
  ngControl :: "ref option"
  elRef :: ref
  fileInputElement :: "input_element option"
  files :: ref
  stateChanges :: subject
  onChange' :: "nat option"
  id' :: string
  disabled' :: bool
  focused :: bool
  errorState :: bool
  controlType :: string
  describedBy :: string
  required' :: bool

type_synonym state = "component \<times> heap"

definition empty_heap :: heap where
  "empty_heap = \<lparr>sets = [], wrappers = [], nextId = 0, monitored = [],
     stopMonitoring_calls = [], valueAccessor = Map.empty, onChange_calls = []\<rparr>"

text \<open>
  Reading an object through a reference. An address outside the store stands for a value
  that is no object (\<open>undefined\<close>); a property access on it throws \<open>TypeError\<close>.
\<close>

definition deref :: "'a list \<Rightarrow> ref \<Rightarrow> 'a option" where
  "deref store r = (if r < length store then Some (store ! r) else None)"

text \<open>
  \<open>nextId++\<close> on a JavaScript number: exact up to \<open>2^53\<close>, where adding one rounds back
  to the same number. Counting up from \<open>0\<close> never reaches a larger value.
\<close>

definition js_incr :: "nat \<Rightarrow> nat" where
  "js_incr n = (if n < 2 ^ 53 then n + 1 else n)"

definition FocusMonitor_monitor :: "ref \<Rightarrow> heap \<Rightarrow> heap" where
  "FocusMonitor_monitor el h =
     (if el \<in> set (monitored h) then h else h\<lparr>monitored := monitored h @ [el]\<rparr>)"

definition FocusMonitor_stopMonitoring :: "ref \<Rightarrow> heap \<Rightarrow> heap" where
  "FocusMonitor_stopMonitoring el h =
     h\<lparr>monitored := removeAll el (monitored h),
       stopMonitoring_calls := stopMonitoring_calls h @ [el]\<rparr>"

text \<open>\<open>ids.join(' ')\<close>\<close>

fun join :: "string \<Rightarrow> string list \<Rightarrow> string" where
  "join sep [] = []"
| "join sep [x] = x"
| "join sep (x # y # ys) = x @ sep @ join sep (y # ys)"

section \<open>The component's operations\<close>

text \<open>
  The field initialisers run in the order of their declaration, then the constructor's
  body: it subscribes to the focus monitor on the root element and, when an \<open>NgControl\<close>
  was injected, makes the component its value accessor. The view child is not yet there.
\<close>

definition constructor :: "ref option \<Rightarrow> ref \<Rightarrow> heap \<Rightarrow> state" where
  "constructor ngc el h =
     (let c = \<lparr>ngControl = ngc, elRef = el,
                fileInputElement = None,
                files = length (sets h),
                stateChanges = Subject_new,
                onChange' = None,
                id' = ''app-file-upload-area'' @ string_of_nat (nextId h),
                disabled' = False, focused = False, errorState = False,
                controlType = ''app-file-upload-area'', describedBy = [],
                required' = False\<rparr>;
          h1 = h\<lparr>sets := sets h @ [[]], nextId := js_incr (nextId h)\<rparr>;
          h2 = FocusMonitor_monitor el h1;
          h3 = (case ngc of None \<Rightarrow> h2
                | Some n \<Rightarrow> h2\<lparr>valueAccessor := (valueAccessor h2)(n \<mapsto> id' c)\<rparr>)
      in (c, h3))"

definition stateChanges_next :: "component \<Rightarrow> component" where
  "stateChanges_next c = c\<lparr>stateChanges := Subject_next (stateChanges c)\<rparr>"

text \<open>\<open>this._onChange(this.files)\<close>: calling \<open>undefined\<close> throws.\<close>

fun call_onChange :: "state \<Rightarrow> unit completion \<times> state" where
  "call_onChange (c, h) =
     (case onChange' c of
        None \<Rightarrow> (Throw TypeError, (c, h))
      | Some fn \<Rightarrow> (Normal (), (c, h\<lparr>onChange_calls := onChange_calls h @ [(fn, files c)]\<rparr>)))"

text \<open>The getter allocates a new wrapper around the reference in \<open>this.files\<close>.\<close>

fun get_value :: "state \<Rightarrow> ref \<times> state" where
  "get_value (c, h) =
     (length (wrappers h), (c, h\<lparr>wrappers := wrappers h @ [MyFileListInput (files c)]\<rparr>))"

fun set_value :: "ref \<Rightarrow> state \<Rightarrow> unit completion \<times> state" where
  "set_value val (c, h) =
     (case deref (wrappers h) val of
        None \<Rightarrow> (Throw TypeError, (c, h))
      | Some w \<Rightarrow> call_onChange (stateChanges_next (c\<lparr>files := w_files w\<rparr>), h))"

fun empty' :: "state \<Rightarrow> bool completion" where
  "empty' (c, h) =
     (case deref (sets h) (files c) of
        None \<Rightarrow> Throw TypeError
      | Some xs \<Rightarrow> Normal (Set_size xs < 1))"

fun shouldLabelFloat :: "state \<Rightarrow> bool completion" where
  "shouldLabelFloat (c, h) =
     (if focused c then Normal True
      else (case empty' (c, h) of Throw e \<Rightarrow> Throw e | Normal b \<Rightarrow> Normal (\<not> b)))"

fun get_required :: "state \<Rightarrow> bool" where
  "get_required (c, h) = required' c"

fun set_required :: "js_value \<Rightarrow> state \<Rightarrow> state" where
  "set_required req (c, h) =
     (stateChanges_next (c\<lparr>required' := coerceBooleanProperty req\<rparr>), h)"

fun get_disabled :: "state \<Rightarrow> bool" where
  "get_disabled (c, h) = disabled' c"

fun set_disabled :: "js_value \<Rightarrow> state \<Rightarrow> state" where
  "set_disabled dis (c, h) =
     (stateChanges_next (c\<lparr>disabled' := coerceBooleanProperty dis\<rparr>), h)"

fun setDescribedByIds :: "string list \<Rightarrow> state \<Rightarrow> state" where
  "setDescribedByIds ids (c, h) = (c\<lparr>describedBy := join '' '' ids\<rparr>, h)"

definition onContainerClick :: "state \<Rightarrow> state" where
  "onContainerClick s = s"

definition ngOnInit :: "state \<Rightarrow> state" where
  "ngOnInit s = s"

text \<open>
  When the view has been created the framework stores the template's input element in the
  \<open>@ViewChild\<close> field. A new input has no file selected.
\<close>

fun view_init :: "state \<Rightarrow> state" where
  "view_init (c, h) =
     (case fileInputElement c of
        None \<Rightarrow> (c\<lparr>fileInputElement := Some \<lparr>el_files = [], clicks = 0\<rparr>\<rparr>, h)
      | Some el \<Rightarrow> (c, h))"

text \<open>
  The loop of \<open>onFilesAdded\<close> over the keys of the picker's collection: a key that
  \<open>parseInt\<close> reads as a number has its file added to the \<open>Set\<close> behind \<open>this.files\<close>.
\<close>

fun add_picked :: "(string \<times> File) list \<Rightarrow> state \<Rightarrow> unit completion \<times> state" where
  "add_picked [] s = (Normal (), s)"
| "add_picked ((key, f) # rest) (c, h) =
     (if \<not> isNaN (parseInt key) then
        (case deref (sets h) (files c) of
           None \<Rightarrow> (Throw TypeError, (c, h))
         | Some xs \<Rightarrow> add_picked rest (c, h\<lparr>sets := (sets h)[files c := Set_add f xs]\<rparr>))
      else add_picked rest (c, h))"

text \<open>
  \<open>onFilesAdded\<close> first reads \<open>this.fileInputElement.nativeElement.files\<close>: on an
  \<open>undefined\<close> view child that throws, before the loop and before any notification.
\<close>

fun onFilesAdded :: "state \<Rightarrow> unit completion \<times> state" where
  "onFilesAdded (c, h) =
     (case fileInputElement c of
        None \<Rightarrow> (Throw TypeError, (c, h))
      | Some el \<Rightarrow>
          (case add_picked (el_files el) (c, h) of
             (Throw e, s) \<Rightarrow> (Throw e, s)
           | (Normal u, (c1, h1)) \<Rightarrow> call_onChange (stateChanges_next c1, h1)))"

text \<open>\<open>this.fileInputElement.nativeElement.click()\<close>, which throws on a missing view child.\<close>

fun addFiles :: "state \<Rightarrow> unit completion \<times> state" where
  "addFiles (c, h) =
     (case fileInputElement c of
        None \<Rightarrow> (Throw TypeError, (c, h))
      | Some el \<Rightarrow> (Normal (), (c\<lparr>fileInputElement := Some (el\<lparr>clicks := clicks el + 1\<rparr>)\<rparr>, h)))"

fun removeFile :: "File \<Rightarrow> state \<Rightarrow> unit completion \<times> state" where
  "removeFile f (c, h) =
     (case deref (sets h) (files c) of
        None \<Rightarrow> (Throw TypeError, (c, h))
      | Some xs \<Rightarrow>
          call_onChange (stateChanges_next c, h\<lparr>sets := (sets h)[files c := Set_delete f xs]\<rparr>))"

fun ngOnDestroy :: "state \<Rightarrow> state" where
  "ngOnDestroy (c, h) =
     (c\<lparr>stateChanges := Subject_complete (stateChanges c)\<rparr>,
      FocusMonitor_stopMonitoring (elRef c) h)"

fun registerOnChange :: "nat \<Rightarrow> state \<Rightarrow> state" where
  "registerOnChange fn (c, h) = (c\<lparr>onChange' := Some fn\<rparr>, h)"

definition registerOnTouched :: "state \<Rightarrow> state" where
  "registerOnTouched s = s"

definition setDisabledState :: "bool \<Rightarrow> state \<Rightarrow> state" where
  "setDisabledState isDisabled s = s"

definition writeValue :: "state \<Rightarrow> state" where
  "writeValue s = s"

text \<open>
  The subscriber the constructor hands to the focus monitor. The monitor calls it only
  while it watches the root element.
\<close>

fun focus_subscriber :: "FocusOrigin option \<Rightarrow> state \<Rightarrow> state" where
  "focus_subscriber origin (c, h) =
     (if elRef c \<in> set (monitored h)
      then (stateChanges_next (c\<lparr>focused := (origin \<noteq> None)\<rparr>), h)
      else (c, h))"

section \<open>The environment and runs of the component\<close>

text \<open>
  What the surroundings do between the component's operations: the framework attaches
  the view; the user completes the picker dialog, which fills the native input's
  collection (there is nothing to pick from before the view is there); outside code
  builds a wrapper
  around a new \<open>Set\<close> (\<open>new MyFileListInput(new Set(fs))\<close>), or changes the \<open>Set\<close>
  behind a wrapper it holds with the \<open>Set\<close>'s own \<open>add\<close> and \<open>delete\<close>.
\<close>

fun user_picks :: "(string \<times> File) list \<Rightarrow> state \<Rightarrow> state" where
  "user_picks kvs (c, h) =
     (case fileInputElement c of
        None \<Rightarrow> (c, h)
      | Some el \<Rightarrow> (c\<lparr>fileInputElement := Some (el\<lparr>el_files := kvs\<rparr>)\<rparr>, h))"

definition Set_of :: "File list \<Rightarrow> File list" where
  "Set_of fs = foldl (\<lambda>xs f. Set_add f xs) [] fs"

fun new_wrapper :: "File list \<Rightarrow> state \<Rightarrow> state" where
  "new_wrapper fs (c, h) =
     (c, h\<lparr>sets := sets h @ [Set_of fs],
           wrappers := wrappers h @ [MyFileListInput (length (sets h))]\<rparr>)"

fun wrapper_update :: "(File list \<Rightarrow> File list) \<Rightarrow> ref \<Rightarrow> state \<Rightarrow> state" where
  "wrapper_update m val (c, h) =
     (case deref (wrappers h) val of
        None \<Rightarrow> (c, h)
      | Some w \<Rightarrow>
          (case deref (sets h) (w_files w) of
             None \<Rightarrow> (c, h)
           | Some xs \<Rightarrow> (c, h\<lparr>sets := (sets h)[w_files w := m xs]\<rparr>)))"

datatype action =
    GetValue
  | SetValue ref
  | GetEmpty
  | GetShouldLabelFloat
  | GetRequired
  | SetRequired js_value
  | GetDisabled
  | SetDisabled js_value
  | SetDescribedByIds "string list"
  | OnContainerClick
  | NgOnInit
  | OnFilesAdded
  | AddFiles
  | RemoveFile File
  | NgOnDestroy
  | RegisterOnChange nat
  | RegisterOnTouched
  | SetDisabledState bool
  | WriteValue
  | FocusChange "FocusOrigin option"
  | ViewInit
  | UserPicks "(string \<times> File) list"
  | NewWrapper "File list"
  | WrapperAdd ref File
  | WrapperDelete ref File

fun discard :: "'a completion \<Rightarrow> unit completion" where
  "discard (Normal v) = Normal ()"
| "discard (Throw e) = Throw e"

fun step :: "action \<Rightarrow> state \<Rightarrow> unit completion \<times> state" where
  "step GetValue s = (Normal (), snd (get_value s))"
| "step (SetValue val) s = set_value val s"
| "step GetEmpty s = (discard (empty' s), s)"
| "step GetShouldLabelFloat s = (discard (shouldLabelFloat s), s)"
| "step GetRequired s = (Normal (), s)"
| "step (SetRequired req) s = (Normal (), set_required req s)"
| "step GetDisabled s = (Normal (), s)"
| "step (SetDisabled dis) s = (Normal (), set_disabled dis s)"
| "step (SetDescribedByIds ids) s = (Normal (), setDescribedByIds ids s)"
| "step OnContainerClick s = (Normal (), onContainerClick s)"
| "step NgOnInit s = (Normal (), ngOnInit s)"
| "step OnFilesAdded s = onFilesAdded s"
| "step AddFiles s = addFiles s"
| "step (RemoveFile f) s = removeFile f s"
| "step NgOnDestroy s = (Normal (), ngOnDestroy s)"
| "step (RegisterOnChange fn) s = (Normal (), registerOnChange fn s)"
| "step RegisterOnTouched s = (Normal (), registerOnTouched s)"
| "step (SetDisabledState b) s = (Normal (), setDisabledState b s)"
| "step WriteValue s = (Normal (), writeValue s)"
| "step (FocusChange origin) s = (Normal (), focus_subscriber origin s)"
| "step ViewInit s = (Normal (), view_init s)"
| "step (UserPicks kvs) s = (Normal (), user_picks kvs s)"
| "step (NewWrapper fs) s = (Normal (), new_wrapper fs s)"
| "step (WrapperAdd val f) s = (Normal (), wrapper_update (Set_add f) val s)"
| "step (WrapperDelete val f) s = (Normal (), wrapper_update (Set_delete f) val s)"

text \<open>
  A run is a sequence of events on one page. An operation that throws ends its own event
  only: the state it left behind is where the next event starts.
\<close>

fun run :: "action list \<Rightarrow> state \<Rightarrow> state" where
  "run [] s = s"
| "run (a # as) s = run as (snd (step a s))"

inductive reachable :: "state \<Rightarrow> bool" where
  constructed: "reachable (constructor ngc el empty_heap)"
| stepped: "reachable s \<Longrightarrow> reachable (snd (step a s))"

text \<open>The operations that call the change callback.\<close>

fun calls_onChange :: "action \<Rightarrow> bool" where
  "calls_onChange (SetValue val) = True"
| "calls_onChange OnFilesAdded = True"
| "calls_onChange (RemoveFile f) = True"
| "calls_onChange a = False"

fun is_SetValue :: "action \<Rightarrow> bool" where
  "is_SetValue (SetValue val) = True"
| "is_SetValue a = False"

text \<open>The Selection: the contents of the \<open>Set\<close> that \<open>this.files\<close> refers to.\<close>

fun selection :: "state \<Rightarrow> File list option" where
  "selection (c, h) = deref (sets h) (files c)"

text \<open>The contents of the \<open>Set\<close> seen through the wrapper at \<open>val\<close>.\<close>

fun wrapper_contents :: "ref \<Rightarrow> state \<Rightarrow> File list option" where
  "wrapper_contents val (c, h) =
     (case deref (wrappers h) val of None \<Rightarrow> None | Some w \<Rightarrow> deref (sets h) (w_files w))"

text \<open>The picker's collection as the component finds it; nothing before the view is there.\<close>

definition picked :: "component \<Rightarrow> (string \<times> File) list" where
  "picked c = (case fileInputElement c of None \<Rightarrow> [] | Some el \<Rightarrow> el_files el)"

subsection \<open>The keys of the collection, in the words of the specification\<close>

text \<open>
  These definitions are written from the specification and from the JavaScript standard's
  description of a numeral, not from the code's filter, so that the filter can be
  compared with them. An index key is a key made of decimal digits only, as the indices
  \<open>0\<close>, \<open>1\<close>, ... of a file list are.
\<close>

definition decimal_digit :: "char \<Rightarrow> bool" where
  "decimal_digit c = (48 \<le> (of_char c :: nat) \<and> (of_char c :: nat) \<le> 57)"

definition index_key :: "string \<Rightarrow> bool" where
  "index_key key = (key \<noteq> [] \<and> list_all decimal_digit key)"

text \<open>
  A key reads as a number when, after any leading white space and at most one sign, it
  goes on with a decimal digit; what follows that digit does not matter.
\<close>

definition white_space :: "char \<Rightarrow> bool" where
  "white_space c = (of_char c \<in> {9, 10, 11, 12, 13, 32, 160 :: nat})"

fun drop_white_space :: "string \<Rightarrow> string" where
  "drop_white_space [] = []"
| "drop_white_space (c # cs) = (if white_space c then drop_white_space cs else c # cs)"

fun begins_with_digit :: "string \<Rightarrow> bool" where
  "begins_with_digit [] = False"
| "begins_with_digit (c # cs) = decimal_digit c"

definition reads_as_number :: "string \<Rightarrow> bool" where
  "reads_as_number key =
     (case drop_white_space key of
        [] \<Rightarrow> False
      | c # cs \<Rightarrow>
          if c = CHR ''+'' \<or> c = CHR ''-'' then begins_with_digit cs else decimal_digit c)"

text \<open>The files a collection holds under the keys of one kind.\<close>

definition files_under :: "(string \<Rightarrow> bool) \<Rightarrow> (string \<times> File) list \<Rightarrow> File set" where
  "files_under kind kvs = snd ` set (filter (\<lambda>(key, f). kind key) kvs)"

text \<open>Several components constructed one after the other on the same page.\<close>

fun construct_all :: "(ref option \<times> ref) list \<Rightarrow> heap \<Rightarrow> component list \<times> heap" where
  "construct_all [] h = ([], h)"
| "construct_all ((ngc, el) # rest) h =
     (case constructor ngc el h of
        (c, h1) \<Rightarrow> (case construct_all rest h1 of (cs, h2) \<Rightarrow> (c # cs, h2)))"

text \<open>
  The invariant of the stores: every reference held by the component or by a wrapper
  points to a \<open>Set\<close>, and no \<open>Set\<close> holds a member twice.
\<close>

fun stores_ok :: "state \<Rightarrow> bool" where
  "stores_ok (c, h) =
     (files c < length (sets h) \<and>
      (\<forall>w \<in> set (wrappers h). w_files w < length (sets h)) \<and>
      (\<forall>xs \<in> set (sets h). distinct xs))"

text \<open>
  An operation called as the framework calls it: the value setter with a reference to an
  existing wrapper, and the two handlers of the template, \<open>onFilesAdded\<close> and
  \<open>addFiles\<close>, once the view with their input element is attached. The other operations
  take values of their declared types at any time.
\<close>

fun well_called :: "action \<Rightarrow> state \<Rightarrow> bool" where
  "well_called (SetValue val) (c, h) = (val < length (wrappers h))"
| "well_called OnFilesAdded (c, h) = (fileInputElement c \<noteq> None)"
| "well_called AddFiles (c, h) = (fileInputElement c \<noteq> None)"
| "well_called a s = True"

text \<open>The number read back from the end of an instance's id.\<close>

definition id_suffix :: "component \<Rightarrow> nat" where
  "id_suffix c = nat_of_digits (drop (length ''app-file-upload-area'') (id' c))"

text \<open>
  The state \<open>ngOnDestroy\<close> leaves: the stream is stopped and the focus monitor no longer
  watches the root element.
\<close>

definition destroyed :: "state \<Rightarrow> bool" where
  "destroyed s = (isStopped (stateChanges (fst s)) \<and> elRef (fst s) \<notin> set (monitored (snd s)))"

subsection \<open>Example states\<close>

text \<open>
  A component fresh from its constructor, on an empty page and without an \<open>NgControl\<close>;
  the same with its view attached; after the forms framework also registered callback
  \<open>7\<close> and the user picked two files (the collection also enumerates \<open>length\<close> and
  \<open>item\<close>); after \<open>onFilesAdded\<close> ran on that; with a collection that holds a file under
  the key \<open>12abc\<close>; with a wrapper around \<open>{file 1, file 2}\<close> built outside; after that
  wrapper was assigned to \<open>value\<close>; and after \<open>ngOnDestroy\<close>.
\<close>

definition fresh_component :: state where
  "fresh_component = constructor None 0 empty_heap"

definition attached_component :: state where
  "attached_component = run [ViewInit] fresh_component"

definition odd_key_component :: state where
  "odd_key_component =
     run [ViewInit, RegisterOnChange 7, UserPicks [(''12abc'', FileRef 9)]] fresh_component"

definition picking_component :: state where
  "picking_component =
     run [ViewInit, RegisterOnChange 7,
          UserPicks [(''0'', FileRef 1), (''1'', FileRef 2), (''length'', FileRef 3),
                     (''item'', FileRef 4)]] fresh_component"

definition picked_component :: state where
  "picked_component = run [OnFilesAdded] picking_component"

definition wrapped_component :: state where
  "wrapped_component =
     run [ViewInit, RegisterOnChange 7, NewWrapper [FileRef 1, FileRef 2]] fresh_component"

definition scenario_component :: state where
  "scenario_component = run [SetValue 0] wrapped_component"

definition destroyed_component :: state where
  "destroyed_component = run [RegisterOnChange 7, NgOnDestroy] fresh_component"

definition three_constructions :: "(ref option \<times> ref) list" where
  "three_constructions = [(None, 0), (None, 1), (Some 5, 2)]"

definition aliasing_acts1 :: "action list" where
  "aliasing_acts1 = [RemoveFile (FileRef 1)]"

definition aliasing_acts2 :: "action list" where
  "aliasing_acts2 = [UserPicks [(''0'', FileRef 3)], OnFilesAdded]"

definition aliasing_final :: state where
  "aliasing_final =
     run aliasing_acts2
       (snd (get_value (run aliasing_acts1 (snd (set_value 0 wrapped_component)))))"

section \<open>Facts about the host language\<close>

lemma digit_cases:
  assumes "d < (10::nat)"
  shows "d = 0 \<or> d = 1 \<or> d = 2 \<or> d = 3 \<or> d = 4 \<or> d = 5 \<or> d = 6 \<or> d = 7 \<or> d = 8 \<or> d = 9"
  using assms by arith

lemma digit_val_digit_char: "d < 10 \<Longrightarrow> digit_val (digit_char d) = d"
  using digit_cases [of d] by (auto simp: digit_val_def digit_char_def)

lemma is_digit_digit_char: "d < 10 \<Longrightarrow> is_digit (digit_char d)"
  using digit_cases [of d] by (auto simp: is_digit_def digit_char_def)

lemma nat_of_digits_snoc: "nat_of_digits (ds @ [c]) = 10 * nat_of_digits ds + digit_val c"
  by (simp add: nat_of_digits_def)

lemma nat_of_digits_string_of_nat: "nat_of_digits (string_of_nat n) = n"
proof (induction n rule: string_of_nat.induct)
  case (1 n)
  show ?case
  proof (cases "n < 10")
    case True
    then show ?thesis
      by (simp add: string_of_nat.simps [of n] nat_of_digits_def digit_val_digit_char)
  next
    case False
    with "1" have "nat_of_digits (string_of_nat (n div 10)) = n div 10" by simp
    with False show ?thesis
      by (simp add: string_of_nat.simps [of n] nat_of_digits_snoc digit_val_digit_char)
  qed
qed

lemma inj_string_of_nat: "inj string_of_nat"
  by (rule inj_on_inverseI [where g = nat_of_digits]) (rule nat_of_digits_string_of_nat)

lemma string_of_nat_digits: "c \<in> set (string_of_nat n) \<Longrightarrow> is_digit c"
proof (induction n rule: string_of_nat.induct)
  case (1 n)
  show ?case
  proof (cases "n < 10")
    case True
    with "1.prems" show ?thesis
      by (simp add: string_of_nat.simps [of n] is_digit_digit_char)
  next
    case False
    with "1.prems" have "c \<in> set (string_of_nat (n div 10)) \<or> c = digit_char (n mod 10)"
      by (auto simp: string_of_nat.simps [of n])
    with False "1.IH" show ?thesis
      by (auto simp: is_digit_digit_char)
  qed
qed

lemma string_of_nat_not_false: "string_of_nat n \<noteq> ''false''"
proof
  assume "string_of_nat n = ''false''"
  then have "CHR ''f'' \<in> set (string_of_nat n)" by simp
  then have "is_digit CHR ''f''" by (rule string_of_nat_digits)
  then show False by (simp add: is_digit_def)
qed

lemma string_of_int_not_false: "string_of_int i \<noteq> ''false''"
  by (simp add: string_of_int_def string_of_nat_not_false)

lemma coerceBooleanProperty_cases:
  "coerceBooleanProperty v =
     (case v of JUndefined \<Rightarrow> False | JNull \<Rightarrow> False | JBool b \<Rightarrow> b
      | JNum n \<Rightarrow> True | JStr s \<Rightarrow> s \<noteq> ''false'')"
  by (cases v) (simp_all add: coerceBooleanProperty_def string_of_int_not_false)


lemma distinct_Set_add: "distinct xs \<Longrightarrow> distinct (Set_add f xs)"
  by (simp add: Set_add_def)

lemma set_Set_delete: "set (Set_delete f xs) = set xs - {f}"
  by (auto simp: Set_delete_def)

lemma distinct_Set_delete: "distinct xs \<Longrightarrow> distinct (Set_delete f xs)"
  by (simp add: Set_delete_def distinct_removeAll)

lemma Set_delete_absent: "f \<notin> set xs \<Longrightarrow> Set_delete f xs = xs"
  by (simp add: Set_delete_def)

lemma Set_add_present: "f \<in> set xs \<Longrightarrow> Set_add f xs = xs"
  by (simp add: Set_add_def)

section \<open>Facts about the operations\<close>

lemma deref_update_same: "deref xs r = Some v \<Longrightarrow> deref (xs[r := w]) r = Some w"
  by (simp add: deref_def split: if_splits)

lemma add_picked_ok:
  "deref (sets h) (files c) = Some sel \<Longrightarrow>
   add_picked kvs (c, h) =
     (Normal (),
      (c, h\<lparr>sets := (sets h)[files c := foldl (\<lambda>xs f. Set_add f xs) sel
              (map snd (filter (\<lambda>(key, f). \<not> isNaN (parseInt key)) kvs))]\<rparr>))"
proof (induction kvs arbitrary: h sel)
  case Nil
  then have "sel = sets h ! files c"
    by (simp add: deref_def split: if_splits)
  then show ?case by simp
next
  case (Cons kv kvs)
  obtain key f where kv: "kv = (key, f)" by (cases kv)
  show ?case
  proof (cases "isNaN (parseInt key)")
    case True
    with Cons kv show ?thesis by simp
  next
    case False
    let ?h1 = "h\<lparr>sets := (sets h)[files c := Set_add f sel]\<rparr>"
    from Cons.prems have "deref (sets ?h1) (files c) = Some (Set_add f sel)"
      by (simp add: deref_update_same)
    from Cons.IH [OF this] False kv Cons.prems show ?thesis
      by simp
  qed
qed


lemma distinct_foldl_Set_add:
  "distinct sel \<Longrightarrow> distinct (foldl (\<lambda>xs f. Set_add f xs) sel fs)"
  by (induction fs arbitrary: sel) (auto simp: distinct_Set_add)

lemma foldl_Set_add_present:
  "set fs \<subseteq> set sel \<Longrightarrow> foldl (\<lambda>xs f. Set_add f xs) sel fs = sel"
  by (induction fs arbitrary: sel) (auto simp: Set_add_present)

lemma is_ws_white_space: "is_ws c = white_space c"
proof
  assume "is_ws c"
  then show "white_space c"
    by (auto simp: is_ws_def white_space_def)
next
  assume "white_space c"
  then have "of_char c = (of_char CHR 0x09 :: nat) \<or> of_char c = (of_char CHR 0x0A :: nat) \<or>
      of_char c = (of_char CHR 0x0B :: nat) \<or> of_char c = (of_char CHR 0x0C :: nat) \<or>
      of_char c = (of_char CHR 0x0D :: nat) \<or> of_char c = (of_char CHR 0x20 :: nat) \<or>
      of_char c = (of_char CHR 0xA0 :: nat)"
    by (auto simp: white_space_def)
  then have "c = CHR 0x09 \<or> c = CHR 0x0A \<or> c = CHR 0x0B \<or> c = CHR 0x0C \<or>
      c = CHR 0x0D \<or> c = CHR 0x20 \<or> c = CHR 0xA0"
    by (simp only: of_char_eq_iff)
  then show "is_ws c"
    by (auto simp: is_ws_def)
qed

lemma is_digit_decimal_digit: "is_digit c = decimal_digit c"
proof
  assume "is_digit c"
  then show "decimal_digit c"
    by (auto simp: is_digit_def decimal_digit_def)
next
  assume "decimal_digit c"
  then have "48 \<le> (of_char c :: nat)" and "(of_char c :: nat) \<le> 57"
    by (simp_all add: decimal_digit_def)
  then have "(of_char c :: nat) \<in> {48, 49, 50, 51, 52, 53, 54, 55, 56, 57}"
    by (simp add: insert_iff) arith
  then have "of_char c = (of_char (digit_char 0) :: nat) \<or>
      of_char c = (of_char (digit_char 1) :: nat) \<or>
      of_char c = (of_char (digit_char 2) :: nat) \<or>
      of_char c = (of_char (digit_char 3) :: nat) \<or>
      of_char c = (of_char (digit_char 4) :: nat) \<or>
      of_char c = (of_char (digit_char 5) :: nat) \<or>
      of_char c = (of_char (digit_char 6) :: nat) \<or>
      of_char c = (of_char (digit_char 7) :: nat) \<or>
      of_char c = (of_char (digit_char 8) :: nat) \<or>
      of_char c = (of_char (digit_char 9) :: nat)"
    by (auto simp: digit_char_def)
  then have "c = digit_char 0 \<or> c = digit_char 1 \<or> c = digit_char 2 \<or> c = digit_char 3 \<or>
      c = digit_char 4 \<or> c = digit_char 5 \<or> c = digit_char 6 \<or> c = digit_char 7 \<or>
      c = digit_char 8 \<or> c = digit_char 9"
    by (simp only: of_char_eq_iff)
  then show "is_digit c"
    by (auto simp: is_digit_digit_char)
qed

lemma dropWhile_is_ws: "dropWhile is_ws key = drop_white_space key"
  by (induction key) (simp_all add: is_ws_white_space)

lemma takeWhile_is_digit_empty: "(takeWhile is_digit u = []) = (\<not> begins_with_digit u)"
  by (cases u) (simp_all add: is_digit_decimal_digit)

lemma isNaN_parseInt_iff: "(\<not> isNaN (parseInt key)) = reads_as_number key"
proof (cases "drop_white_space key")
  case Nil
  then show ?thesis
    by (simp add: parseInt_def isNaN_def Let_def dropWhile_is_ws reads_as_number_def)
next
  case (Cons c cs)
  then show ?thesis
    by (simp add: parseInt_def isNaN_def Let_def dropWhile_is_ws reads_as_number_def
        takeWhile_is_digit_empty)
qed


lemma reads_examples:
  "reads_as_number ''0''" "reads_as_number ''1''" "\<not> reads_as_number ''length''"
  "\<not> reads_as_number ''item''" "reads_as_number ''12abc''" "\<not> index_key ''12abc''"
  "reads_as_number ''-3''" "reads_as_number '' 7''" "reads_as_number [CHR 0xA0, CHR ''1'']"
  "index_key ''0''" "index_key ''1''" "\<not> index_key ''length''" "\<not> index_key ''item''"
  by (simp_all add: reads_as_number_def index_key_def decimal_digit_def white_space_def)

lemma filter_parseInt:
  "filter (\<lambda>(key, f). \<not> isNaN (parseInt key)) kvs =
   filter (\<lambda>(key, f). reads_as_number key) kvs"
  by (simp add: isNaN_parseInt_iff)

lemma files_under_reads_as_number:
  "files_under reads_as_number kvs =
   snd ` set (filter (\<lambda>(key, f). \<not> isNaN (parseInt key)) kvs)"
  by (simp add: files_under_def filter_parseInt)

lemma files_under_eq:
  "files_under kind kvs = set (map snd (filter (\<lambda>(key, f). kind key) kvs))"
  by (simp add: files_under_def)


lemma delivered_next:
  "\<not> isStopped (stateChanges c) \<Longrightarrow>
   delivered (stateChanges (stateChanges_next c)) = delivered (stateChanges c) + 1"
  by (simp add: stateChanges_next_def Subject_next_def)

lemma onFilesAdded_registered:
  assumes "deref (sets h) (files c) = Some sel" and "onChange' c = Some fn"
    and "fileInputElement c = Some el"
  shows "onFilesAdded (c, h) =
     (Normal (),
      (stateChanges_next c,
       h\<lparr>sets := (sets h)[files c := foldl (\<lambda>xs f. Set_add f xs) sel
              (map snd (filter (\<lambda>(key, f). reads_as_number key) (el_files el)))],
         onChange_calls := onChange_calls h @ [(fn, files c)]\<rparr>))"
proof -
  from assms(2) have "onChange' (stateChanges_next c) = Some fn"
    "files (stateChanges_next c) = files c"
    by (simp_all add: stateChanges_next_def)
  with add_picked_ok [OF assms(1), of "el_files el"] assms(3) show ?thesis
    by (simp add: filter_parseInt)
qed

lemma onFilesAdded_no_view:
  "fileInputElement c = None \<Longrightarrow> onFilesAdded (c, h) = (Throw TypeError, (c, h))"
  by simp

lemma picked_Some: "fileInputElement c = Some el \<Longrightarrow> picked c = el_files el"
  by (simp add: picked_def)

lemma picked_None: "fileInputElement c = None \<Longrightarrow> picked c = []"
  by (simp add: picked_def)

lemma removeFile_registered:
  assumes "deref (sets h) (files c) = Some sel" and "onChange' c = Some fn"
  shows "removeFile f (c, h) =
     (Normal (),
      (stateChanges_next c,
       h\<lparr>sets := (sets h)[files c := Set_delete f sel],
         onChange_calls := onChange_calls h @ [(fn, files c)]\<rparr>))"
proof -
  from assms(2) have "onChange' (stateChanges_next c) = Some fn"
    "files (stateChanges_next c) = files c"
    by (simp_all add: stateChanges_next_def)
  with assms(1) show ?thesis by simp
qed

lemma files_next: "files (stateChanges_next c) = files c"
  by (simp add: stateChanges_next_def)

subsection \<open>The invariant of the stores\<close>

lemma distinct_Set_of: "distinct (Set_of fs)"
  by (simp add: Set_of_def distinct_foldl_Set_add)

lemma sets_update_distinct:
  assumes "\<forall>xs \<in> set ss. distinct xs" and "distinct v"
  shows "\<forall>xs \<in> set (ss[r := v]). distinct xs"
  using assms set_update_subset_insert [of ss r v] by auto

lemma stores_ok_constructor: "stores_ok (constructor ngc el empty_heap)"
  by (simp add: constructor_def empty_heap_def Let_def FocusMonitor_monitor_def
      split: option.splits)

lemma stores_ok_call_onChange: "stores_ok s \<Longrightarrow> stores_ok (snd (call_onChange s))"
  by (cases s) (simp split: option.splits)

lemma stores_ok_next: "stores_ok (c, h) \<Longrightarrow> stores_ok (stateChanges_next c, h)"
  by (simp add: stateChanges_next_def)

lemma stores_ok_set_value: "stores_ok s \<Longrightarrow> stores_ok (snd (set_value val s))"
proof -
  assume ok: "stores_ok s"
  obtain c h where s: "s = (c, h)" by (cases s)
  show ?thesis
  proof (cases "deref (wrappers h) val")
    case None
    with ok s show ?thesis by simp
  next
    case (Some w)
    then have "w \<in> set (wrappers h)"
      by (auto simp: deref_def split: if_splits)
    with ok s have "stores_ok (stateChanges_next (c\<lparr>files := w_files w\<rparr>), h)"
      by (simp add: stateChanges_next_def)
    then have "stores_ok (snd (call_onChange (stateChanges_next (c\<lparr>files := w_files w\<rparr>), h)))"
      by (rule stores_ok_call_onChange)
    with Some s show ?thesis by simp
  qed
qed

lemma stores_ok_sets_update:
  assumes "stores_ok (c, h)" and "distinct v"
  shows "stores_ok (c, h\<lparr>sets := (sets h)[r := v]\<rparr>)"
  using assms sets_update_distinct [of "sets h" v r] by simp

lemma stores_ok_selection:
  "stores_ok (c, h) \<Longrightarrow> \<exists>sel. deref (sets h) (files c) = Some sel \<and> distinct sel"
  by (simp add: deref_def)

lemma stores_ok_removeFile: "stores_ok s \<Longrightarrow> stores_ok (snd (removeFile f s))"
proof -
  assume ok: "stores_ok s"
  obtain c h where s: "s = (c, h)" by (cases s)
  from ok s obtain sel where sel: "deref (sets h) (files c) = Some sel" "distinct sel"
    using stores_ok_selection by blast
  from ok s sel have "stores_ok (c, h\<lparr>sets := (sets h)[files c := Set_delete f sel]\<rparr>)"
    by (intro stores_ok_sets_update) (simp_all add: distinct_Set_delete)
  then have "stores_ok (stateChanges_next c, h\<lparr>sets := (sets h)[files c := Set_delete f sel]\<rparr>)"
    by (rule stores_ok_next)
  then have "stores_ok (snd (call_onChange
      (stateChanges_next c, h\<lparr>sets := (sets h)[files c := Set_delete f sel]\<rparr>)))"
    by (rule stores_ok_call_onChange)
  with s sel show ?thesis by simp
qed

lemma stores_ok_onFilesAdded: "stores_ok s \<Longrightarrow> stores_ok (snd (onFilesAdded s))"
proof -
  assume ok: "stores_ok s"
  obtain c h where s: "s = (c, h)" by (cases s)
  show ?thesis
  proof (cases "fileInputElement c")
    case None
    with ok s show ?thesis by simp
  next
    case (Some el)
    from ok s obtain sel where sel: "deref (sets h) (files c) = Some sel" "distinct sel"
      using stores_ok_selection by blast
    let ?sel' = "foldl (\<lambda>xs f. Set_add f xs) sel
       (map snd (filter (\<lambda>(key, f). \<not> isNaN (parseInt key)) (el_files el)))"
    let ?h1 = "h\<lparr>sets := (sets h)[files c := ?sel']\<rparr>"
    have loop: "add_picked (el_files el) (c, h) = (Normal (), (c, ?h1))"
      by (rule add_picked_ok [OF sel(1)])
    from ok s sel have "stores_ok (c, ?h1)"
      by (intro stores_ok_sets_update) (simp_all add: distinct_foldl_Set_add)
    then have "stores_ok (stateChanges_next c, ?h1)"
      by (rule stores_ok_next)
    then have "stores_ok (snd (call_onChange (stateChanges_next c, ?h1)))"
      by (rule stores_ok_call_onChange)
    with s loop Some show ?thesis by simp
  qed
qed

lemma stores_ok_get_value: "stores_ok s \<Longrightarrow> stores_ok (snd (get_value s))"
  by (cases s) auto

lemma stores_ok_new_wrapper: "stores_ok s \<Longrightarrow> stores_ok (new_wrapper fs s)"
  by (cases s) (auto simp: distinct_Set_of less_Suc_eq)

lemma stores_ok_wrapper_update:
  assumes "stores_ok s" and "\<And>xs. distinct xs \<Longrightarrow> distinct (m xs)"
  shows "stores_ok (wrapper_update m val s)"
proof -
  obtain c h where s: "s = (c, h)" by (cases s)
  show ?thesis
  proof (cases "deref (wrappers h) val")
    case None
    with assms s show ?thesis by simp
  next
    case (Some w)
    show ?thesis
    proof (cases "deref (sets h) (w_files w)")
      case None
      with Some assms s show ?thesis by simp
    next
      case (Some xs)
      then have "xs \<in> set (sets h)"
        by (auto simp: deref_def split: if_splits)
      with assms s have "distinct (m xs)" by simp
      with assms(1) s have "stores_ok (c, h\<lparr>sets := (sets h)[w_files w := m xs]\<rparr>)"
        by (intro stores_ok_sets_update) simp_all
      with Some \<open>deref (wrappers h) val = Some w\<close> s show ?thesis by simp
    qed
  qed
qed

lemma stores_ok_step: "stores_ok s \<Longrightarrow> stores_ok (snd (step a s))"
proof (cases a)
  case (SetValue val)
  assume "stores_ok s" then show ?thesis using SetValue by (simp add: stores_ok_set_value)
next
  case GetValue
  assume "stores_ok s" then show ?thesis using GetValue by (simp add: stores_ok_get_value)
next
  case OnFilesAdded
  assume "stores_ok s" then show ?thesis using OnFilesAdded by (simp add: stores_ok_onFilesAdded)
next
  case (RemoveFile f)
  assume "stores_ok s" then show ?thesis using RemoveFile by (simp add: stores_ok_removeFile)
next
  case (NewWrapper fs)
  assume "stores_ok s" then show ?thesis using NewWrapper by (simp add: stores_ok_new_wrapper)
next
  case (WrapperAdd val f)
  assume "stores_ok s" then show ?thesis using WrapperAdd
    by (simp add: stores_ok_wrapper_update distinct_Set_add)
next
  case (WrapperDelete val f)
  assume "stores_ok s" then show ?thesis using WrapperDelete
    by (simp add: stores_ok_wrapper_update distinct_Set_delete)
qed (cases s; simp add: stateChanges_next_def onContainerClick_def ngOnInit_def
      registerOnTouched_def setDisabledState_def writeValue_def
      FocusMonitor_stopMonitoring_def split: option.splits)+

lemma reachable_stores_ok: "reachable s \<Longrightarrow> stores_ok s"
  by (induction rule: reachable.induct) (simp_all add: stores_ok_constructor stores_ok_step)

lemma reachable_run: "reachable s \<Longrightarrow> reachable (run acts s)"
  by (induction acts arbitrary: s) (simp_all add: reachable.stepped)


subsection \<open>Operations with a registered callback\<close>

lemma call_onChange_registered:
  "onChange' c = Some fn \<Longrightarrow>
   call_onChange (c, h) = (Normal (), (c, h\<lparr>onChange_calls := onChange_calls h @ [(fn, files c)]\<rparr>))"
  by simp

lemma set_value_registered:
  assumes "val < length (wrappers h)" and "onChange' c = Some fn"
    and "\<not> isStopped (stateChanges c)"
  shows "set_value val (c, h) =
     (Normal (),
      (stateChanges_next (c\<lparr>files := w_files (wrappers h ! val)\<rparr>),
       h\<lparr>onChange_calls := onChange_calls h @ [(fn, w_files (wrappers h ! val))]\<rparr>))"
  using assms by (simp add: deref_def stateChanges_next_def)


subsection \<open>Ids of instances\<close>

lemma constructor_id:
  "id' (fst (constructor ngc el h)) = ''app-file-upload-area'' @ string_of_nat (nextId h)"
  by (simp add: constructor_def Let_def)

lemma constructor_nextId: "nextId (snd (constructor ngc el h)) = js_incr (nextId h)"
  by (simp add: constructor_def Let_def FocusMonitor_monitor_def split: option.splits)

lemma construct_all_ids:
  "nextId h + length args \<le> 2 ^ 53 \<Longrightarrow>
   map id' (fst (construct_all args h)) =
     map (\<lambda>n. ''app-file-upload-area'' @ string_of_nat n) [nextId h ..< nextId h + length args] \<and>
   nextId (snd (construct_all args h)) = nextId h + length args"
proof (induction args arbitrary: h)
  case Nil
  then show ?case by simp
next
  case (Cons a args)
  obtain ngc el where a: "a = (ngc, el)" by (cases a)
  obtain c h1 where ch: "constructor ngc el h = (c, h1)" by (cases "constructor ngc el h")
  from Cons.prems have lt: "nextId h < 2 ^ 53" by simp
  from ch constructor_nextId [of ngc el h] lt have n1: "nextId h1 = Suc (nextId h)"
    by (simp add: js_incr_def)
  from ch constructor_id [of ngc el h]
  have idc: "id' c = ''app-file-upload-area'' @ string_of_nat (nextId h)" by simp
  from Cons.prems n1 have "nextId h1 + length args \<le> 2 ^ 53" by simp
  from Cons.IH [OF this] n1
  have IH: "map id' (fst (construct_all args h1)) =
      map (\<lambda>n. ''app-file-upload-area'' @ string_of_nat n)
        [Suc (nextId h) ..< Suc (nextId h) + length args]"
    "nextId (snd (construct_all args h1)) = Suc (nextId h) + length args"
    by (simp_all del: upt_Suc)
  have upt: "[nextId h ..< nextId h + length (a # args)] =
      nextId h # [Suc (nextId h) ..< Suc (nextId h) + length args]"
    by (subst upt_rec) simp
  have ca: "construct_all (a # args) h =
      (c # fst (construct_all args h1), snd (construct_all args h1))"
    using a ch by (simp add: split_beta)
  have "map id' (c # fst (construct_all args h1)) =
      map (\<lambda>n. ''app-file-upload-area'' @ string_of_nat n)
        (nextId h # [Suc (nextId h) ..< Suc (nextId h) + length args])"
    using idc IH(1) by (simp only: list.map)
  moreover have "nextId (snd (construct_all args h1)) = nextId h + length (a # args)"
    using IH(2) by simp
  ultimately show ?case
    by (simp only: ca upt fst_conv snd_conv)
qed

lemma id_suffix_prefixed:
  "id' c = ''app-file-upload-area'' @ string_of_nat n \<Longrightarrow> id_suffix c = n"
  by (simp add: id_suffix_def nat_of_digits_string_of_nat)


subsection \<open>What the operations leave alone\<close>

lemma add_picked_frame:
  "add_picked kvs (c, h) = (r, (c', h')) \<Longrightarrow>
   c' = c \<and> wrappers h' = wrappers h \<and> monitored h' = monitored h"
proof (induction kvs arbitrary: h)
  case Nil
  then show ?case by simp
next
  case (Cons kv kvs)
  obtain key f where kv: "kv = (key, f)" by (cases kv)
  show ?case
  proof (cases "isNaN (parseInt key)")
    case True
    with Cons.prems kv have "add_picked kvs (c, h) = (r, (c', h'))" by simp
    then show ?thesis by (rule Cons.IH)
  next
    case False
    show ?thesis
    proof (cases "deref (sets h) (files c)")
      case None
      with False Cons.prems kv show ?thesis by simp
    next
      case (Some xs)
      let ?h1 = "h\<lparr>sets := (sets h)[files c := Set_add f xs]\<rparr>"
      from Some False Cons.prems kv have "add_picked kvs (c, ?h1) = (r, (c', h'))" by simp
      from Cons.IH [OF this] show ?thesis by simp
    qed
  qed
qed

lemma onFilesAdded_frame:
  "(fst (snd (onFilesAdded (c, h))) = c \<or> fst (snd (onFilesAdded (c, h))) = stateChanges_next c) \<and>
   monitored (snd (snd (onFilesAdded (c, h)))) = monitored h \<and>
   wrappers (snd (snd (onFilesAdded (c, h)))) = wrappers h"
proof (cases "fileInputElement c")
  case None
  then show ?thesis by simp
next
  case (Some el)
  obtain r c1 h1 where ap: "add_picked (el_files el) (c, h) = (r, (c1, h1))"
    by (metis surj_pair)
  from add_picked_frame [OF ap]
  have c1: "c1 = c" and m: "monitored h1 = monitored h" "wrappers h1 = wrappers h"
    by simp_all
  show ?thesis
  proof (cases r)
    case (Throw e)
    with ap c1 m Some show ?thesis by simp
  next
    case (Normal u)
    with ap c1 m Some show ?thesis
      by (simp split: option.splits)
  qed
qed

lemma next_stopped: "isStopped (stateChanges c) \<Longrightarrow> stateChanges_next c = c"
  by (simp add: stateChanges_next_def Subject_next_def)

lemma step_destroyed:
  assumes "destroyed s"
  shows "destroyed (snd (step a s)) \<and>
    elRef (fst (snd (step a s))) = elRef (fst s) \<and>
    delivered (stateChanges (fst (snd (step a s)))) = delivered (stateChanges (fst s)) \<and>
    focused (fst (snd (step a s))) = focused (fst s)"
proof -
  obtain c h where s: "s = (c, h)" by (cases s)
  from assms s have st: "isStopped (stateChanges c)" and el: "elRef c \<notin> set (monitored h)"
    by (simp_all add: destroyed_def)
  have nx: "\<And>c'. stateChanges c' = stateChanges c \<Longrightarrow> stateChanges_next c' = c'"
    using st by (simp add: next_stopped)
  show ?thesis
  proof (cases a)
    case (SetValue val)
    with s st el show ?thesis
      by (simp add: destroyed_def nx split: option.splits)
  next
    case OnFilesAdded
    from onFilesAdded_frame [of c h] next_stopped [OF st]
    have "fst (snd (onFilesAdded (c, h))) = c"
      "monitored (snd (snd (onFilesAdded (c, h)))) = monitored h"
      by auto
    with OnFilesAdded s st el show ?thesis
      by (simp add: destroyed_def)
  next
    case (RemoveFile f)
    with s st el show ?thesis
      by (simp add: destroyed_def nx split: option.splits)
  next
    case (WrapperAdd val f)
    with s st el show ?thesis
      by (simp add: destroyed_def split: option.splits)
  next
    case (WrapperDelete val f)
    with s st el show ?thesis
      by (simp add: destroyed_def split: option.splits)
  next
    case AddFiles
    with s st el show ?thesis
      by (simp add: destroyed_def split: option.splits)
  next
    case ViewInit
    with s st el show ?thesis
      by (simp add: destroyed_def split: option.splits)
  next
    case (UserPicks kvs)
    with s st el show ?thesis
      by (simp add: destroyed_def split: option.splits)
  qed (use s st el in \<open>simp_all add: destroyed_def nx onContainerClick_def ngOnInit_def
      registerOnTouched_def setDisabledState_def writeValue_def Subject_complete_def
      FocusMonitor_stopMonitoring_def\<close>)
qed

lemma run_destroyed:
  "destroyed s \<Longrightarrow>
   destroyed (run acts s) \<and>
   elRef (fst (run acts s)) = elRef (fst s) \<and>
   delivered (stateChanges (fst (run acts s))) = delivered (stateChanges (fst s)) \<and>
   focused (fst (run acts s)) = focused (fst s)"
proof (induction acts arbitrary: s)
  case Nil
  then show ?case by simp
next
  case (Cons a acts)
  from step_destroyed [OF Cons.prems, of a] Cons.IH [of "snd (step a s)"]
  show ?case by simp
qed

lemma deref_append: "deref xs r = Some v \<Longrightarrow> deref (xs @ ws) r = Some v"
  by (simp add: deref_def nth_append split: if_splits)

lemma step_keeps:
  "(\<exists>ws. wrappers (snd (snd (step a s))) = wrappers (snd s) @ ws) \<and>
   (\<not> is_SetValue a \<longrightarrow> files (fst (snd (step a s))) = files (fst s))"
proof -
  obtain c h where s: "s = (c, h)" by (cases s)
  show ?thesis
  proof (cases a)
    case (SetValue val)
    with s show ?thesis
      by (simp split: option.splits)
  next
    case OnFilesAdded
    from onFilesAdded_frame [of c h]
    have "files (fst (snd (onFilesAdded (c, h)))) = files c"
      "wrappers (snd (snd (onFilesAdded (c, h)))) = wrappers h"
      by (auto simp: stateChanges_next_def)
    with OnFilesAdded s show ?thesis by simp
  next
    case (RemoveFile f)
    with s show ?thesis
      by (simp add: stateChanges_next_def split: option.splits)
  next
    case (WrapperAdd val f)
    with s show ?thesis by (simp split: option.splits)
  next
    case (WrapperDelete val f)
    with s show ?thesis by (simp split: option.splits)
  next
    case AddFiles
    with s show ?thesis by (simp split: option.splits)
  next
    case ViewInit
    with s show ?thesis by (simp split: option.splits)
  next
    case (UserPicks kvs)
    with s show ?thesis by (simp split: option.splits)
  qed (use s in \<open>simp_all add: stateChanges_next_def onContainerClick_def ngOnInit_def
      registerOnTouched_def setDisabledState_def writeValue_def
      FocusMonitor_stopMonitoring_def\<close>)
qed

lemma run_keeps:
  "\<forall>a \<in> set acts. \<not> is_SetValue a \<Longrightarrow>
   (\<exists>ws. wrappers (snd (run acts s)) = wrappers (snd s) @ ws) \<and>
   files (fst (run acts s)) = files (fst s)"
proof (induction acts arbitrary: s)
  case Nil
  then show ?case by simp
next
  case (Cons a acts)
  from Cons.prems have a: "\<not> is_SetValue a" and rest: "\<forall>a \<in> set acts. \<not> is_SetValue a"
    by simp_all
  from step_keeps [of a s] a obtain ws1 where
    w1: "wrappers (snd (snd (step a s))) = wrappers (snd s) @ ws1" and
    f1: "files (fst (snd (step a s))) = files (fst s)" by auto
  from Cons.IH [OF rest, of "snd (step a s)"] obtain ws2 where
    w2: "wrappers (snd (run acts (snd (step a s)))) = wrappers (snd (snd (step a s))) @ ws2" and
    f2: "files (fst (run acts (snd (step a s)))) = files (fst (snd (step a s)))" by auto
  from w1 w2 f1 f2 show ?case by simp
qed

lemma run_keeps_wrapper:
  assumes "\<forall>a \<in> set acts. \<not> is_SetValue a" and "deref (wrappers (snd s)) val = Some w"
  shows "deref (wrappers (snd (run acts s))) val = Some w"
proof -
  from run_keeps [OF assms(1), of s] obtain ws where
    "wrappers (snd (run acts s)) = wrappers (snd s) @ ws" by auto
  with assms(2) show ?thesis by (simp add: deref_append)
qed

lemma set_value_stores:
  assumes "deref (wrappers (snd s)) val = Some w"
  shows "files (fst (snd (set_value val s))) = w_files w \<and>
    sets (snd (snd (set_value val s))) = sets (snd s) \<and>
    wrappers (snd (snd (set_value val s))) = wrappers (snd s)"
proof -
  obtain c h where s: "s = (c, h)" by (cases s)
  with assms show ?thesis
    by (simp add: stateChanges_next_def split: option.splits)
qed

lemma wrapper_contents_alias:
  assumes "deref (wrappers (snd s)) val = Some (MyFileListInput r)" and "files (fst s) = r"
  shows "wrapper_contents val s = selection s"
proof -
  obtain c h where s: "s = (c, h)" by (cases s)
  with assms show ?thesis by simp
qed

subsection \<open>The example states, evaluated\<close>

lemma fresh_component_eq:
  "fresh_component =
     (\<lparr>ngControl = None, elRef = 0, fileInputElement = None,
       files = 0, stateChanges = \<lparr>isStopped = False, delivered = 0\<rparr>, onChange' = None,
       id' = ''app-file-upload-area0'', disabled' = False, focused = False,
       errorState = False, controlType = ''app-file-upload-area'', describedBy = [],
       required' = False\<rparr>,
      \<lparr>sets = [[]], wrappers = [], nextId = 1, monitored = [0], stopMonitoring_calls = [],
       valueAccessor = Map.empty, onChange_calls = []\<rparr>)"
  by (simp add: fresh_component_def constructor_def empty_heap_def Let_def Subject_new_def
      FocusMonitor_monitor_def js_incr_def string_of_nat.simps [of 0] digit_char_def)

lemma numeric_keys_example:
  "\<not> isNaN (parseInt ''0'')" "\<not> isNaN (parseInt ''1'')"
  "isNaN (parseInt ''length'')" "isNaN (parseInt ''item'')"
  "\<not> isNaN (parseInt ''12abc'')"
  by (simp_all add: isNaN_def parseInt_def is_ws_def is_digit_def Let_def)

lemma attached_component_eq:
  "attached_component =
     (\<lparr>ngControl = None, elRef = 0,
       fileInputElement = Some \<lparr>el_files = [], clicks = 0\<rparr>,
       files = 0, stateChanges = \<lparr>isStopped = False, delivered = 0\<rparr>, onChange' = None,
       id' = ''app-file-upload-area0'', disabled' = False, focused = False,
       errorState = False, controlType = ''app-file-upload-area'', describedBy = [],
       required' = False\<rparr>,
      \<lparr>sets = [[]], wrappers = [], nextId = 1, monitored = [0], stopMonitoring_calls = [],
       valueAccessor = Map.empty, onChange_calls = []\<rparr>)"
  by (simp add: attached_component_def fresh_component_eq)


lemma picking_component_eq:
  "picking_component =
     (\<lparr>ngControl = None, elRef = 0,
       fileInputElement = Some \<lparr>el_files = [(''0'', FileRef 1), (''1'', FileRef 2),
         (''length'', FileRef 3), (''item'', FileRef 4)], clicks = 0\<rparr>,
       files = 0, stateChanges = \<lparr>isStopped = False, delivered = 0\<rparr>, onChange' = Some 7,
       id' = ''app-file-upload-area0'', disabled' = False, focused = False,
       errorState = False, controlType = ''app-file-upload-area'', describedBy = [],
       required' = False\<rparr>,
      \<lparr>sets = [[]], wrappers = [], nextId = 1, monitored = [0], stopMonitoring_calls = [],
       valueAccessor = Map.empty, onChange_calls = []\<rparr>)"
  by (simp add: picking_component_def fresh_component_eq)

lemma wrapped_component_eq:
  "wrapped_component =
     (\<lparr>ngControl = None, elRef = 0, fileInputElement = Some \<lparr>el_files = [], clicks = 0\<rparr>,
       files = 0, stateChanges = \<lparr>isStopped = False, delivered = 0\<rparr>, onChange' = Some 7,
       id' = ''app-file-upload-area0'', disabled' = False, focused = False,
       errorState = False, controlType = ''app-file-upload-area'', describedBy = [],
       required' = False\<rparr>,
      \<lparr>sets = [[], [FileRef 1, FileRef 2]], wrappers = [MyFileListInput 1], nextId = 1,
       monitored = [0], stopMonitoring_calls = [],
       valueAccessor = Map.empty, onChange_calls = []\<rparr>)"
  by (simp add: wrapped_component_def fresh_component_eq Set_of_def Set_add_def)

lemma scenario_component_eq:
  "scenario_component =
     (\<lparr>ngControl = None, elRef = 0, fileInputElement = Some \<lparr>el_files = [], clicks = 0\<rparr>,
       files = 1, stateChanges = \<lparr>isStopped = False, delivered = 1\<rparr>, onChange' = Some 7,
       id' = ''app-file-upload-area0'', disabled' = False, focused = False,
       errorState = False, controlType = ''app-file-upload-area'', describedBy = [],
       required' = False\<rparr>,
      \<lparr>sets = [[], [FileRef 1, FileRef 2]], wrappers = [MyFileListInput 1], nextId = 1,
       monitored = [0], stopMonitoring_calls = [],
       valueAccessor = Map.empty, onChange_calls = [(7, 1)]\<rparr>)"
  by (simp add: scenario_component_def wrapped_component_eq deref_def stateChanges_next_def
      Subject_next_def)

lemma destroyed_component_eq:
  "destroyed_component =
     (\<lparr>ngControl = None, elRef = 0, fileInputElement = None,
       files = 0, stateChanges = \<lparr>isStopped = True, delivered = 0\<rparr>, onChange' = Some 7,
       id' = ''app-file-upload-area0'', disabled' = False, focused = False,
       errorState = False, controlType = ''app-file-upload-area'', describedBy = [],
       required' = False\<rparr>,
      \<lparr>sets = [[]], wrappers = [], nextId = 1, monitored = [], stopMonitoring_calls = [0],
       valueAccessor = Map.empty, onChange_calls = []\<rparr>)"
  by (simp add: destroyed_component_def fresh_component_eq Subject_complete_def
      FocusMonitor_stopMonitoring_def)

lemma reachable_fresh: "reachable fresh_component"
  unfolding fresh_component_def by (rule reachable.constructed)

lemma picked_component_eq:
  "picked_component =
     (\<lparr>ngControl = None, elRef = 0,
       fileInputElement = Some \<lparr>el_files = [(''0'', FileRef 1), (''1'', FileRef 2),
         (''length'', FileRef 3), (''item'', FileRef 4)], clicks = 0\<rparr>,
       files = 0, stateChanges = \<lparr>isStopped = False, delivered = 1\<rparr>, onChange' = Some 7,
       id' = ''app-file-upload-area0'', disabled' = False, focused = False,
       errorState = False, controlType = ''app-file-upload-area'', describedBy = [],
       required' = False\<rparr>,
      \<lparr>sets = [[FileRef 1, FileRef 2]], wrappers = [], nextId = 1, monitored = [0],
       stopMonitoring_calls = [], valueAccessor = Map.empty, onChange_calls = [(7, 0)]\<rparr>)"
  by (simp add: picked_component_def picking_component_eq numeric_keys_example deref_def
      Set_add_def stateChanges_next_def Subject_next_def)

lemma reachable_attached: "reachable attached_component"
  unfolding attached_component_def by (rule reachable_run [OF reachable_fresh])

lemma reachable_odd_key: "reachable odd_key_component"
  unfolding odd_key_component_def by (rule reachable_run [OF reachable_fresh])

lemma reachable_picking: "reachable picking_component"
  unfolding picking_component_def by (rule reachable_run [OF reachable_fresh])

lemma reachable_picked: "reachable picked_component"
  unfolding picked_component_def by (rule reachable_run [OF reachable_picking])

lemma reachable_wrapped: "reachable wrapped_component"
  unfolding wrapped_component_def by (rule reachable_run [OF reachable_fresh])

lemma reachable_scenario: "reachable scenario_component"
  unfolding scenario_component_def by (rule reachable_run [OF reachable_wrapped])

lemma reachable_destroyed: "reachable destroyed_component"
  unfolding destroyed_component_def by (rule reachable_run [OF reachable_fresh])

lemma string_of_nat_examples:
  "string_of_nat 0 = ''0''" "string_of_nat (Suc 0) = ''1''" "string_of_nat 2 = ''2''"
  by (simp_all add: string_of_nat.simps [of 0] string_of_nat.simps [of "Suc 0"]
      string_of_nat.simps [of 2] digit_char_def)

lemma aliasing_final_eq:
  "aliasing_final =
     (\<lparr>ngControl = None, elRef = 0,
       fileInputElement = Some \<lparr>el_files = [(''0'', FileRef 3)], clicks = 0\<rparr>,
       files = 1, stateChanges = \<lparr>isStopped = False, delivered = 3\<rparr>, onChange' = Some 7,
       id' = ''app-file-upload-area0'', disabled' = False, focused = False,
       errorState = False, controlType = ''app-file-upload-area'', describedBy = [],
       required' = False\<rparr>,
      \<lparr>sets = [[], [FileRef 2, FileRef 3]],
       wrappers = [MyFileListInput 1, MyFileListInput 1], nextId = 1,
       monitored = [0], stopMonitoring_calls = [],
       valueAccessor = Map.empty, onChange_calls = [(7, 1), (7, 1), (7, 1)]\<rparr>)"
  by (simp add: aliasing_final_def aliasing_acts1_def aliasing_acts2_def wrapped_component_eq
      deref_def stateChanges_next_def Subject_next_def Set_delete_def Set_add_def
      numeric_keys_example)

section \<open>The claims\<close>

subsection \<open>C1: \<open>onFilesAdded\<close>\<close>




subsection \<open>C2: \<open>removeFile\<close>\<close>

text \<open>
  C2. Under the same conditions (the Selection is a \<open>Set\<close> with contents \<open>sel\<close>, a callback
  \<open>fn\<close> is registered, the stream is not completed) \<open>removeFile f\<close> returns normally for
  every file \<open>f\<close>. The Selection, still the same \<open>Set\<close> object, has the members of \<open>sel\<close>
  without \<open>f\<close>; when \<open>f\<close> was not a member its contents are exactly \<open>sel\<close>. In both cases
  one state-change notification is emitted and the registered callback is called once.
\<close>

theorem removeFile_removes:
  assumes "selection s = Some sel"
    and "onChange' (fst s) = Some fn"
    and "\<not> isStopped (stateChanges (fst s))"
  shows "fst (removeFile f s) = Normal () \<and>
    files (fst (snd (removeFile f s))) = files (fst s) \<and>
    (\<exists>sel'. selection (snd (removeFile f s)) = Some sel' \<and>
       set sel' = set sel - {f} \<and> (f \<notin> set sel \<longrightarrow> sel' = sel)) \<and>
    delivered (stateChanges (fst (snd (removeFile f s)))) =
      delivered (stateChanges (fst s)) + 1 \<and>
    onChange_calls (snd (snd (removeFile f s))) = onChange_calls (snd s) @ [(fn, files (fst s))]"
proof -
  obtain c h where s: "s = (c, h)" by (cases s)
  from assms(1) s have d: "deref (sets h) (files c) = Some sel" by simp
  from assms(2) s have cb: "onChange' c = Some fn" by simp
  note res = removeFile_registered [OF d cb, of f]
  have sel': "selection (snd (removeFile f s)) = Some (Set_delete f sel)"
    using res s d by (simp add: files_next deref_update_same)
  have "set (Set_delete f sel) = set sel - {f} \<and> (f \<notin> set sel \<longrightarrow> Set_delete f sel = sel)"
    by (simp add: set_Set_delete Set_delete_absent)
  with sel' have "\<exists>sel'. selection (snd (removeFile f s)) = Some sel' \<and>
       set sel' = set sel - {f} \<and> (f \<notin> set sel \<longrightarrow> sel' = sel)"
    by simp
  moreover have "delivered (stateChanges (fst (snd (removeFile f s)))) =
      delivered (stateChanges (fst s)) + 1"
    using res s assms(3) by (simp add: delivered_next)
  ultimately show ?thesis using res s by (simp add: files_next)
qed

theorem removeFile_removes_witness:
  "selection scenario_component = Some [FileRef 1, FileRef 2] \<and>
   onChange' (fst scenario_component) = Some 7 \<and>
   \<not> isStopped (stateChanges (fst scenario_component)) \<and>
   fst (removeFile (FileRef 1) scenario_component) = Normal () \<and>
   selection (snd (removeFile (FileRef 1) scenario_component)) = Some [FileRef 2] \<and>
   selection (snd (removeFile (FileRef 1) (snd (removeFile (FileRef 1) scenario_component)))) =
     Some [FileRef 2] \<and>
   delivered (stateChanges (fst (snd (removeFile (FileRef 1) scenario_component)))) = 2 \<and>
   onChange_calls (snd (snd (removeFile (FileRef 1) scenario_component))) = [(7, 1), (7, 1)]"
proof -
  have h1: "selection scenario_component = Some [FileRef 1, FileRef 2]"
    by (simp add: scenario_component_eq deref_def)
  have h2: "onChange' (fst scenario_component) = Some 7"
    by (simp add: scenario_component_eq)
  have h3: "\<not> isStopped (stateChanges (fst scenario_component))"
    by (simp add: scenario_component_eq)
  from removeFile_removes [OF h1 h2 h3, of "FileRef 1"] h1 h2 h3 show ?thesis
    by (simp add: scenario_component_eq deref_def Set_delete_def stateChanges_next_def
        Subject_next_def)
qed

subsection \<open>C3: one notification and one callback per mutation\<close>

text \<open>
  C3. In every reachable state with a registered callback \<open>fn\<close> and a stream that has not
  been completed, each call of a mutating operation made as the framework makes it (the
  value setter with an existing wrapper, \<open>onFilesAdded\<close> once the view with the picker's
  input is attached, \<open>removeFile\<close>) returns normally, raises the count of delivered
  state-change notifications by exactly one and appends exactly one call of \<open>fn\<close>, made
  with the \<open>Set\<close> the component then holds, to the calls of change callbacks.
\<close>

theorem mutation_notifies_once:
  assumes "reachable s"
    and "calls_onChange a"
    and "well_called a s"
    and "onChange' (fst s) = Some fn"
    and "\<not> isStopped (stateChanges (fst s))"
  shows "fst (step a s) = Normal () \<and>
    delivered (stateChanges (fst (snd (step a s)))) = delivered (stateChanges (fst s)) + 1 \<and>
    onChange_calls (snd (snd (step a s))) =
      onChange_calls (snd s) @ [(fn, files (fst (snd (step a s))))]"
proof -
  obtain c h where s: "s = (c, h)" by (cases s)
  from assms(1) have "stores_ok s" by (rule reachable_stores_ok)
  with s obtain sel where d: "deref (sets h) (files c) = Some sel"
    using stores_ok_selection by blast
  from assms(4,5) s have cb: "onChange' c = Some fn" and st: "\<not> isStopped (stateChanges c)"
    by simp_all
  show ?thesis
  proof (cases a)
    case (SetValue val)
    with assms(3) s have "val < length (wrappers h)" by simp
    from set_value_registered [OF this cb st] s SetValue st show ?thesis
      by (simp add: stateChanges_next_def Subject_next_def)
  next
    case OnFilesAdded
    with assms(3) s obtain el where "fileInputElement c = Some el" by auto
    from onFilesAdded_registered [OF d cb this] OnFilesAdded s st show ?thesis
      by (simp add: files_next delivered_next)
  next
    case (RemoveFile f)
    with removeFile_registered [OF d cb, of f] s st show ?thesis
      by (simp add: files_next delivered_next)
  qed (use assms(2) in simp_all)
qed

theorem mutation_notifies_once_witness:
  "reachable wrapped_component \<and>
   calls_onChange (SetValue 0) \<and>
   well_called (SetValue 0) wrapped_component \<and>
   onChange' (fst wrapped_component) = Some 7 \<and>
   \<not> isStopped (stateChanges (fst wrapped_component)) \<and>
   fst (step (SetValue 0) wrapped_component) = Normal () \<and>
   delivered (stateChanges (fst (snd (step (SetValue 0) wrapped_component)))) = 1 \<and>
   onChange_calls (snd (snd (step (SetValue 0) wrapped_component))) = [(7, 1)] \<and>
   reachable picking_component \<and>
   calls_onChange OnFilesAdded \<and>
   well_called OnFilesAdded picking_component \<and>
   onChange' (fst picking_component) = Some 7 \<and>
   \<not> isStopped (stateChanges (fst picking_component)) \<and>
   fst (step OnFilesAdded picking_component) = Normal () \<and>
   delivered (stateChanges (fst (snd (step OnFilesAdded picking_component)))) = 1 \<and>
   onChange_calls (snd (snd (step OnFilesAdded picking_component))) = [(7, 0)]"
proof -
  have h2: "calls_onChange (SetValue 0)" by simp
  have h3: "well_called (SetValue 0) wrapped_component"
    by (simp add: wrapped_component_eq)
  have h4: "onChange' (fst wrapped_component) = Some 7"
    by (simp add: wrapped_component_eq)
  have h5: "\<not> isStopped (stateChanges (fst wrapped_component))"
    by (simp add: wrapped_component_eq)
  have k2: "calls_onChange OnFilesAdded" by simp
  have k3: "well_called OnFilesAdded picking_component"
    by (simp add: picking_component_eq)
  have k4: "onChange' (fst picking_component) = Some 7"
    by (simp add: picking_component_eq)
  have k5: "\<not> isStopped (stateChanges (fst picking_component))"
    by (simp add: picking_component_eq)
  have first: "fst (step (SetValue 0) wrapped_component) = Normal () \<and>
      delivered (stateChanges (fst (snd (step (SetValue 0) wrapped_component)))) = 1 \<and>
      onChange_calls (snd (snd (step (SetValue 0) wrapped_component))) = [(7, 1)]"
    using mutation_notifies_once [OF reachable_wrapped h2 h3 h4 h5]
    by (simp add: wrapped_component_eq deref_def stateChanges_next_def)
  have files: "files (fst (snd (step OnFilesAdded picking_component))) = 0"
    by (simp add: picking_component_eq numeric_keys_example deref_def stateChanges_next_def)
  have second: "fst (step OnFilesAdded picking_component) = Normal () \<and>
      delivered (stateChanges (fst (snd (step OnFilesAdded picking_component)))) = 1 \<and>
      onChange_calls (snd (snd (step OnFilesAdded picking_component))) = [(7, 0)]"
    using mutation_notifies_once [OF reachable_picking k2 k3 k4 k5] files
    by (simp add: picking_component_eq)
  from first second reachable_wrapped reachable_picking h3 h4 h5 k3 k4 k5 show ?thesis
    by simp
qed

text \<open>
  The condition on the stream is the component's life: once \<open>ngOnDestroy\<close> has completed
  the stream, a mutation still calls the callback but no notification is delivered.
\<close>

lemma mutation_after_destroy_is_silent:
  "reachable destroyed_component \<and>
   onChange' (fst destroyed_component) = Some 7 \<and>
   fst (step (RemoveFile (FileRef 1)) destroyed_component) = Normal () \<and>
   delivered (stateChanges (fst (snd (step (RemoveFile (FileRef 1)) destroyed_component)))) =
     delivered (stateChanges (fst destroyed_component))"
  using reachable_destroyed
  by (simp add: destroyed_component_eq deref_def stateChanges_next_def Subject_next_def)

subsection \<open>C4: coercion of \<open>required\<close> and \<open>disabled\<close>\<close>

text \<open>
  C4, as amended. For every input \<open>v\<close> (\<open>undefined\<close>, \<open>null\<close>, a boolean, an integer or a
  string) the setters of \<open>required\<close> and \<open>disabled\<close> store
  \<open>false\<close> when \<open>v\<close> is \<open>undefined\<close>, \<open>null\<close>, the boolean \<open>false\<close> or the string
  \<open>"false"\<close>, and \<open>true\<close> for every other value. So every truthy value other than the
  string \<open>"false"\<close> (the string \<open>"true"\<close>, the number \<open>1\<close>) is stored as \<open>true\<close> and
  \<open>undefined\<close> is stored as \<open>false\<close>; the empty string and the number \<open>0\<close>, although
  falsy, are stored as \<open>true\<close>.
\<close>

theorem required_disabled_coercion:
  "get_required (set_required v s) =
     (case v of JUndefined \<Rightarrow> False | JNull \<Rightarrow> False | JBool b \<Rightarrow> b
      | JNum n \<Rightarrow> True | JStr str \<Rightarrow> str \<noteq> ''false'') \<and>
   get_disabled (set_disabled v s) =
     (case v of JUndefined \<Rightarrow> False | JNull \<Rightarrow> False | JBool b \<Rightarrow> b
      | JNum n \<Rightarrow> True | JStr str \<Rightarrow> str \<noteq> ''false'') \<and>
   (truthy v \<and> v \<noteq> JStr ''false'' \<longrightarrow>
      get_required (set_required v s) \<and> get_disabled (set_disabled v s))"
proof -
  obtain c h where s: "s = (c, h)" by (cases s)
  have r: "get_required (set_required v s) = coerceBooleanProperty v"
    using s by (simp add: stateChanges_next_def)
  have d: "get_disabled (set_disabled v s) = coerceBooleanProperty v"
    using s by (simp add: stateChanges_next_def)
  have "truthy v \<and> v \<noteq> JStr ''false'' \<longrightarrow> coerceBooleanProperty v"
    by (cases v) (simp_all add: coerceBooleanProperty_cases)
  with r d show ?thesis by (simp add: coerceBooleanProperty_cases)
qed

theorem required_disabled_coercion_witness:
  "truthy (JStr ''true'') \<and> JStr ''true'' \<noteq> JStr ''false'' \<and>
   get_required (set_required (JStr ''true'') fresh_component) \<and>
   get_disabled (set_disabled (JStr ''true'') fresh_component) \<and>
   get_required (set_required (JNum 1) fresh_component) \<and>
   \<not> get_required (set_required JUndefined fresh_component)"
  using required_disabled_coercion [of "JStr ''true''" fresh_component]
    required_disabled_coercion [of "JNum 1" fresh_component]
    required_disabled_coercion [of JUndefined fresh_component]
  by simp

text \<open>
  C4 as stated fails: the empty string and \<open>0\<close> are not stored as \<open>false\<close>, and the truthy
  string \<open>"false"\<close> is not stored as \<open>true\<close>.
\<close>

theorem falsy_values_counterexample:
  "\<not> (get_required (set_required (JStr []) fresh_component) = False) \<and>
   \<not> (get_disabled (set_disabled (JStr []) fresh_component) = False) \<and>
   \<not> (get_required (set_required (JNum 0) fresh_component) = False) \<and>
   \<not> (get_disabled (set_disabled (JNum 0) fresh_component) = False) \<and>
   truthy (JStr ''false'') \<and>
   \<not> (get_required (set_required (JStr ''false'') fresh_component) = True)"
  by (simp add: fresh_component_eq stateChanges_next_def coerceBooleanProperty_cases)

subsection \<open>C5: operations that throw\<close>

text \<open>
  C5. A component fresh from its constructor has no change callback; there \<open>removeFile\<close>
  and \<open>onFilesAdded\<close> throw a \<open>TypeError\<close>. \<open>removeFile\<close> throws because it calls
  \<open>this._onChange\<close>, which is still \<open>undefined\<close>; so does \<open>onFilesAdded\<close> once the view is
  attached, after the notification has gone out (before that it already throws on the
  missing view child).
\<close>

theorem unregistered_callback_throws:
  "onChange' (fst fresh_component) = None \<and>
   fst (removeFile (FileRef 1) fresh_component) = Throw TypeError \<and>
   fst (onFilesAdded fresh_component) = Throw TypeError \<and>
   onChange' (fst attached_component) = None \<and>
   fst (removeFile (FileRef 1) attached_component) = Throw TypeError \<and>
   fst (onFilesAdded attached_component) = Throw TypeError \<and>
   delivered (stateChanges (fst (snd (onFilesAdded attached_component)))) = 1"
  by (simp add: fresh_component_eq attached_component_eq deref_def stateChanges_next_def
      Subject_next_def)

text \<open>
  Apart from that no operation throws: in every reachable state each operation called as
  the framework calls it (the value setter with an existing wrapper, \<open>onFilesAdded\<close> and
  \<open>addFiles\<close> with the view attached) returns normally, provided that a callback has
  been registered when the operation is one of the three that call it.
\<close>

lemma operations_do_not_throw:
  assumes "reachable s"
    and "well_called a s"
    and "calls_onChange a \<longrightarrow> onChange' (fst s) \<noteq> None"
  shows "fst (step a s) = Normal ()"
proof -
  obtain c h where s: "s = (c, h)" by (cases s)
  from assms(1) have "stores_ok s" by (rule reachable_stores_ok)
  with s obtain sel where sel: "deref (sets h) (files c) = Some sel"
    using stores_ok_selection by blast
  show ?thesis
  proof (cases a)
    case (SetValue val)
    with assms s show ?thesis
      by (auto simp: deref_def stateChanges_next_def)
  next
    case OnFilesAdded
    with assms(2) s obtain el where el: "fileInputElement c = Some el" by auto
    from OnFilesAdded assms s el add_picked_ok [OF sel, of "el_files el"] show ?thesis
      by (auto simp: stateChanges_next_def)
  next
    case AddFiles
    with assms(2) s show ?thesis by auto
  next
    case (RemoveFile f)
    with assms s sel show ?thesis
      by (auto simp: stateChanges_next_def)
  next
    case GetEmpty
    with s sel show ?thesis by simp
  next
    case GetShouldLabelFloat
    with s sel show ?thesis by simp
  qed simp_all
qed

subsection \<open>C6: \<open>empty\<close> and \<open>shouldLabelFloat\<close>\<close>

text \<open>
  C6. When the Selection is a \<open>Set\<close> with contents \<open>sel\<close> (as in every reachable state),
  \<open>empty\<close> returns whether \<open>sel\<close> has zero members, and \<open>shouldLabelFloat\<close> returns
  \<open>focused\<close> or not \<open>empty\<close>, for both values of \<open>focused\<close> and every \<open>sel\<close>.
\<close>

theorem shouldLabelFloat_iff:
  assumes "selection s = Some sel"
  shows "empty' s = Normal (length sel = 0) \<and>
         shouldLabelFloat s = Normal (focused (fst s) \<or> length sel \<noteq> 0)"
proof -
  obtain c h where s: "s = (c, h)" by (cases s)
  with assms show ?thesis by (simp add: Set_size_def)
qed

theorem shouldLabelFloat_iff_witness:
  "selection scenario_component = Some [FileRef 1, FileRef 2] \<and>
   empty' scenario_component = Normal False \<and>
   shouldLabelFloat scenario_component = Normal True \<and>
   selection fresh_component = Some [] \<and>
   empty' fresh_component = Normal True \<and>
   shouldLabelFloat fresh_component = Normal False"
proof -
  have h1: "selection scenario_component = Some [FileRef 1, FileRef 2]"
    by (simp add: scenario_component_eq deref_def)
  have h2: "selection fresh_component = Some []"
    by (simp add: fresh_component_eq deref_def)
  have f: "\<not> focused (fst fresh_component)"
    by (simp add: fresh_component_eq)
  from shouldLabelFloat_iff [OF h1] shouldLabelFloat_iff [OF h2] h1 h2 f show ?thesis
    by simp
qed

subsection \<open>C7: no duplicates in the Selection\<close>

text \<open>
  C7. In every reachable state the Selection is a \<open>Set\<close> whose contents hold no file
  twice; and when every file the picker's collection holds under a key that reads as a
  number (the keys whose files \<open>onFilesAdded\<close> adds) is already a member,
  \<open>onFilesAdded\<close> leaves the contents of the Selection exactly as they were.
\<close>

theorem selection_has_no_duplicates:
  assumes "reachable s"
  shows "\<exists>sel. selection s = Some sel \<and> distinct sel \<and>
    (files_under reads_as_number (picked (fst s)) \<subseteq> set sel \<longrightarrow>
       selection (snd (onFilesAdded s)) = Some sel)"
proof -
  obtain c h where s: "s = (c, h)" by (cases s)
  from assms have "stores_ok s" by (rule reachable_stores_ok)
  with s obtain sel where sel: "deref (sets h) (files c) = Some sel" "distinct sel"
    using stores_ok_selection by blast
  have "selection (snd (onFilesAdded s)) = Some sel"
    if sub: "files_under reads_as_number (picked (fst s)) \<subseteq> set sel"
  proof (cases "fileInputElement c")
    case None
    with s sel(1) show ?thesis by simp
  next
    case (Some el)
    let ?fs = "map snd (filter (\<lambda>(key, f). \<not> isNaN (parseInt key)) (el_files el))"
    let ?h1 = "h\<lparr>sets := (sets h)[files c := foldl (\<lambda>xs f. Set_add f xs) sel ?fs]\<rparr>"
    have loop: "add_picked (el_files el) (c, h) = (Normal (), (c, ?h1))"
      by (rule add_picked_ok [OF sel(1)])
    from sub s Some have "set ?fs \<subseteq> set sel"
      by (simp add: files_under_eq picked_Some filter_parseInt)
    then have "foldl (\<lambda>xs f. Set_add f xs) sel ?fs = sel" by (rule foldl_Set_add_present)
    moreover from sel(1) have "(sets h)[files c := sel] = sets h"
      by (auto simp: deref_def split: if_splits)
    ultimately have "?h1 = h" by simp
    with loop have "add_picked (el_files el) (c, h) = (Normal (), (c, h))"
      by simp
    with s sel(1) Some show ?thesis
      by (simp add: stateChanges_next_def split: option.splits)
  qed
  with s sel show ?thesis by simp
qed

theorem selection_has_no_duplicates_witness:
  "reachable picked_component \<and>
   selection picked_component = Some [FileRef 1, FileRef 2] \<and>
   distinct [FileRef 1, FileRef 2] \<and>
   files_under reads_as_number (picked (fst picked_component)) \<subseteq>
     set [FileRef 1, FileRef 2] \<and>
   selection (snd (onFilesAdded picked_component)) = Some [FileRef 1, FileRef 2]"
proof -
  have h: "selection picked_component = Some [FileRef 1, FileRef 2]"
    by (simp add: picked_component_eq deref_def)
  have n: "files_under reads_as_number (picked (fst picked_component)) \<subseteq>
      set [FileRef 1, FileRef 2]"
    by (auto simp: picked_component_eq picked_def files_under_def reads_examples)
  from selection_has_no_duplicates [OF reachable_picked] h n reachable_picked
  show ?thesis by simp
qed

subsection \<open>C8: ids of instances\<close>

text \<open>
  C8. Construct any number of components one after the other, starting from a page whose
  counter stands at \<open>nextId h\<close>, as long as the counter stays within the range in which a
  JavaScript number counts exactly (up to \<open>2^53\<close>). The ids are the prefix
  \<open>app-file-upload-area\<close> followed by the decimal numerals of \<open>nextId h\<close>,
  \<open>nextId h + 1\<close>, ... in the order of construction: the numeric suffixes increase
  strictly from one construction to the next, and the ids are pairwise distinct.
\<close>

theorem ids_strictly_increasing:
  assumes "nextId h + length args \<le> 2 ^ 53"
  shows "map id' (fst (construct_all args h)) =
      map (\<lambda>n. ''app-file-upload-area'' @ string_of_nat n)
        [nextId h ..< nextId h + length args] \<and>
    map id_suffix (fst (construct_all args h)) = [nextId h ..< nextId h + length args] \<and>
    sorted_wrt (<) (map id_suffix (fst (construct_all args h))) \<and>
    distinct (map id' (fst (construct_all args h)))"
proof -
  let ?cs = "fst (construct_all args h)"
  let ?ns = "[nextId h ..< nextId h + length args]"
  let ?f = "\<lambda>n. ''app-file-upload-area'' @ string_of_nat n"
  from construct_all_ids [OF assms] have ids: "map id' ?cs = map ?f ?ns" by simp
  have "inj ?f"
    using inj_string_of_nat by (auto simp: inj_def)
  then have d: "distinct (map ?f ?ns)"
    by (simp add: distinct_map inj_on_def inj_def)
  have len: "length ?cs = length ?ns" using ids by (metis length_map)
  have suf: "map id_suffix ?cs = ?ns"
  proof (rule nth_equalityI)
    show "length (map id_suffix ?cs) = length ?ns" using len by simp
  next
    fix i assume "i < length (map id_suffix ?cs)"
    then have i: "i < length ?cs" by simp
    with len have i': "i < length ?ns" by simp
    from ids have "map id' ?cs ! i = map ?f ?ns ! i" by simp
    with i i' have "id' (?cs ! i) = ?f (?ns ! i)" by simp
    then have "id_suffix (?cs ! i) = ?ns ! i" by (rule id_suffix_prefixed)
    with i show "map id_suffix ?cs ! i = ?ns ! i" by simp
  qed
  have "sorted_wrt (<) ?ns" by simp
  with ids d suf show ?thesis by simp
qed

theorem ids_strictly_increasing_witness:
  "nextId empty_heap + length three_constructions \<le> 2 ^ 53 \<and>
   map id' (fst (construct_all three_constructions empty_heap)) =
     [''app-file-upload-area0'', ''app-file-upload-area1'', ''app-file-upload-area2''] \<and>
   map id_suffix (fst (construct_all three_constructions empty_heap)) = [0, 1, 2]"
proof -
  have n: "nextId empty_heap = 0" "length three_constructions = 3"
    by (simp_all add: empty_heap_def three_constructions_def)
  have h: "nextId empty_heap + length three_constructions \<le> 2 ^ 53"
    by (simp add: n)
  have u: "[0 ..< 0 + 3] = [0, 1, 2::nat]"
    by (simp add: upt_rec)
  from ids_strictly_increasing [OF h]
  have "map id' (fst (construct_all three_constructions empty_heap)) =
      map (\<lambda>n. ''app-file-upload-area'' @ string_of_nat n) [0, 1, 2]"
    and "map id_suffix (fst (construct_all three_constructions empty_heap)) = [0, 1, 2]"
    unfolding n u by blast+
  with h show ?thesis
    by (simp add: string_of_nat_examples)
qed

subsection \<open>C9: \<open>ngOnDestroy\<close>\<close>

text \<open>
  C9. After \<open>ngOnDestroy\<close> the stream is stopped, and whatever operations and events
  follow, the number of notifications delivered on it stays what it was before the
  teardown. \<open>stopMonitoring\<close> has been called on the component's root element, the focus
  monitor no longer watches that element at any later time, and so no later focus event
  changes \<open>focused\<close>.
\<close>

theorem ngOnDestroy_completes_stream:
  "isStopped (stateChanges (fst (ngOnDestroy s))) \<and>
   delivered (stateChanges (fst (run acts (ngOnDestroy s)))) = delivered (stateChanges (fst s)) \<and>
   stopMonitoring_calls (snd (ngOnDestroy s)) = stopMonitoring_calls (snd s) @ [elRef (fst s)] \<and>
   elRef (fst s) \<notin> set (monitored (snd (run acts (ngOnDestroy s)))) \<and>
   focused (fst (run acts (ngOnDestroy s))) = focused (fst s)"
proof -
  obtain c h where s: "s = (c, h)" by (cases s)
  have d: "destroyed (ngOnDestroy s)"
    using s by (simp add: destroyed_def Subject_complete_def FocusMonitor_stopMonitoring_def)
  have e: "elRef (fst (ngOnDestroy s)) = elRef (fst s)"
    "delivered (stateChanges (fst (ngOnDestroy s))) = delivered (stateChanges (fst s))"
    "focused (fst (ngOnDestroy s)) = focused (fst s)"
    "isStopped (stateChanges (fst (ngOnDestroy s)))"
    "stopMonitoring_calls (snd (ngOnDestroy s)) = stopMonitoring_calls (snd s) @ [elRef (fst s)]"
    using s by (simp_all add: Subject_complete_def FocusMonitor_stopMonitoring_def)
  from run_destroyed [OF d, of acts] have r: "destroyed (run acts (ngOnDestroy s))"
    "elRef (fst (run acts (ngOnDestroy s))) = elRef (fst (ngOnDestroy s))"
    "delivered (stateChanges (fst (run acts (ngOnDestroy s)))) =
       delivered (stateChanges (fst (ngOnDestroy s)))"
    "focused (fst (run acts (ngOnDestroy s))) = focused (fst (ngOnDestroy s))"
    by simp_all
  from r(1,2) e(1) have "elRef (fst s) \<notin> set (monitored (snd (run acts (ngOnDestroy s))))"
    by (simp add: destroyed_def)
  with r(3,4) e show ?thesis by simp
qed

theorem ngOnDestroy_completes_stream_witness:
  "isStopped (stateChanges (fst (ngOnDestroy scenario_component))) \<and>
   delivered (stateChanges (fst (run [RemoveFile (FileRef 1), FocusChange (Some Mouse),
       SetRequired (JBool True)] (ngOnDestroy scenario_component)))) = 1 \<and>
   stopMonitoring_calls (snd (ngOnDestroy scenario_component)) = [0] \<and>
   \<not> focused (fst (run [RemoveFile (FileRef 1), FocusChange (Some Mouse),
       SetRequired (JBool True)] (ngOnDestroy scenario_component)))"
  using ngOnDestroy_completes_stream [of scenario_component
      "[RemoveFile (FileRef 1), FocusChange (Some Mouse), SetRequired (JBool True)]"]
  by (simp add: scenario_component_eq)

subsection \<open>C10: the value setter shares the wrapper's \<open>Set\<close>\<close>

text \<open>
  C10. Let \<open>val\<close> be a wrapper whose \<open>files\<close> field is the reference \<open>r\<close>. After
  \<open>value = val\<close> (state \<open>s1\<close>) the component's \<open>files\<close> field is \<open>r\<close> itself and the store
  of \<open>Set\<close>s is as it was: nothing was copied. After any operations \<open>acts1\<close> that do not
  assign \<open>value\<close> again (state \<open>s2\<close>), reading \<open>value\<close> returns a wrapper \<open>val'\<close> that did
  not exist before the read and whose \<open>files\<close> field is \<open>r\<close>. After any further such
  operations \<open>acts2\<close> (state \<open>s4\<close>), among them \<open>removeFile\<close> and \<open>onFilesAdded\<close>, the
  contents seen through \<open>val\<close> and through the returned wrapper \<open>val'\<close> are the Selection's.
\<close>

theorem value_setter_shares_set:
  assumes "deref (wrappers (snd s)) val = Some (MyFileListInput r)"
    and "\<forall>a \<in> set acts1. \<not> is_SetValue a"
    and "\<forall>a \<in> set acts2. \<not> is_SetValue a"
    and "s1 = snd (set_value val s)"
    and "s2 = run acts1 s1"
    and "get_value s2 = (val', s3)"
    and "s4 = run acts2 s3"
  shows "files (fst s1) = r \<and> sets (snd s1) = sets (snd s) \<and>
    files (fst s2) = r \<and>
    deref (wrappers (snd s2)) val' = None \<and>
    deref (wrappers (snd s3)) val' = Some (MyFileListInput r) \<and>
    files (fst s4) = r \<and>
    wrapper_contents val s4 = selection s4 \<and>
    wrapper_contents val' s4 = selection s4"
proof -
  from set_value_stores [OF assms(1)] assms(4)
  have s1: "files (fst s1) = r" "sets (snd s1) = sets (snd s)"
    "wrappers (snd s1) = wrappers (snd s)" by simp_all
  from s1(3) assms(1) have w1: "deref (wrappers (snd s1)) val = Some (MyFileListInput r)"
    by simp
  from run_keeps [OF assms(2), of s1] assms(5) s1(1) have f2: "files (fst s2) = r" by simp
  from run_keeps_wrapper [OF assms(2) w1] assms(5)
  have w2: "deref (wrappers (snd s2)) val = Some (MyFileListInput r)" by simp
  obtain c2 h2 where s2: "s2 = (c2, h2)" by (cases s2)
  from assms(6) s2 have v': "val' = length (wrappers h2)"
    and s3: "s3 = (c2, h2\<lparr>wrappers := wrappers h2 @ [MyFileListInput (files c2)]\<rparr>)"
    by simp_all
  from v' s2 have fresh: "deref (wrappers (snd s2)) val' = None"
    by (simp add: deref_def)
  from v' s3 s2 f2 have w3': "deref (wrappers (snd s3)) val' = Some (MyFileListInput r)"
    by (simp add: deref_def)
  from w2 s2 s3 have w3: "deref (wrappers (snd s3)) val = Some (MyFileListInput r)"
    by (simp add: deref_append)
  from s3 s2 f2 have f3: "files (fst s3) = r" by simp
  from run_keeps [OF assms(3), of s3] assms(7) f3 have f4: "files (fst s4) = r" by simp
  from run_keeps_wrapper [OF assms(3) w3] run_keeps_wrapper [OF assms(3) w3'] assms(7)
  have w4: "deref (wrappers (snd s4)) val = Some (MyFileListInput r)"
    "deref (wrappers (snd s4)) val' = Some (MyFileListInput r)" by simp_all
  from wrapper_contents_alias [OF w4(1) f4] wrapper_contents_alias [OF w4(2) f4]
    s1(1,2) f2 fresh w3' f4
  show ?thesis by simp
qed

theorem value_setter_shares_set_witness:
  "deref (wrappers (snd wrapped_component)) 0 = Some (MyFileListInput 1) \<and>
   \<not> is_SetValue (RemoveFile (FileRef 1)) \<and>
   \<not> is_SetValue (UserPicks [(''0'', FileRef 3)]) \<and>
   \<not> is_SetValue OnFilesAdded \<and>
   fst (get_value (run aliasing_acts1 (snd (set_value 0 wrapped_component)))) = 1 \<and>
   files (fst aliasing_final) = 1 \<and>
   selection aliasing_final = Some [FileRef 2, FileRef 3] \<and>
   wrapper_contents 0 aliasing_final = Some [FileRef 2, FileRef 3] \<and>
   wrapper_contents 1 aliasing_final = Some [FileRef 2, FileRef 3]"
proof -
  have h1: "deref (wrappers (snd wrapped_component)) 0 = Some (MyFileListInput 1)"
    by (simp add: wrapped_component_eq deref_def)
  have h2: "\<forall>a \<in> set aliasing_acts1. \<not> is_SetValue a"
    by (simp add: aliasing_acts1_def)
  have h3: "\<forall>a \<in> set aliasing_acts2. \<not> is_SetValue a"
    by (simp add: aliasing_acts2_def)
  have h6: "get_value (run aliasing_acts1 (snd (set_value 0 wrapped_component))) =
      (fst (get_value (run aliasing_acts1 (snd (set_value 0 wrapped_component)))),
       snd (get_value (run aliasing_acts1 (snd (set_value 0 wrapped_component)))))"
    by simp
  have v: "fst (get_value (run aliasing_acts1 (snd (set_value 0 wrapped_component)))) = 1"
    by (simp add: aliasing_acts1_def wrapped_component_eq deref_def stateChanges_next_def
        Subject_next_def)
  have sel: "selection aliasing_final = Some [FileRef 2, FileRef 3]"
    by (simp add: aliasing_final_eq deref_def)
  from value_setter_shares_set [OF h1 h2 h3 refl refl h6 aliasing_final_def] h1 v sel
  show ?thesis by simp
qed

end
